theory Spec2Isabelle
  imports Complex_Main "HOL-Library.Sublist" "HOL-Library.Log_Nat"
begin

section \<open>Python values used by the searcher\<close>

subsection \<open>Strings\<close>

text \<open>
  A Python \<open>str\<close> is modelled as a \<^typ>\<open>string\<close> whose characters are the code points
  0..255. On these, \<open>str.isspace\<close> holds for the twelve code points below and
  \<open>str.lower\<close> moves A..Z and the upper-case letters 192..222 (without the
  multiplication sign 215) up by 32. The operator \<open>a in b\<close> on strings is
  \<^const>\<open>sublist\<close>: \<open>a\<close> occurs in \<open>b\<close> as a contiguous block.
\<close>

definition isspace :: "char \<Rightarrow> bool" where
  "isspace c = (of_char c \<in> {9, 10, 11, 12, 13, 28, 29, 30, 31, 32, 133, 160 :: nat})"

definition lower_char :: "char \<Rightarrow> char" where
  "lower_char c =
     (let n = of_char c :: nat
      in if (65 \<le> n \<and> n \<le> 90) \<or> (192 \<le> n \<and> n \<le> 222 \<and> n \<noteq> 215)
         then char_of (n + 32) else c)"

definition lower :: "string \<Rightarrow> string" where
  "lower s = map lower_char s"

text \<open>\<open>s.split()\<close>: the maximal runs of non-space characters, in order.\<close>

fun split_ws :: "string \<Rightarrow> string \<Rightarrow> string list" where
  "split_ws w [] = (if w = [] then [] else [w])"
| "split_ws w (c # cs) =
     (if isspace c then (if w = [] then split_ws [] cs else w # split_ws [] cs)
      else split_ws (w @ [c]) cs)"

definition py_split :: "string \<Rightarrow> string list" where
  "py_split s = split_ws [] s"

definition strip :: "string \<Rightarrow> string" where
  "strip s = rev (dropWhile isspace (rev (dropWhile isspace s)))"

fun join :: "string \<Rightarrow> string list \<Rightarrow> string" where
  "join sep [] = []"
| "join sep [w] = w"
| "join sep (w # ws) = w @ sep @ join sep ws"

subsection \<open>Floats\<close>

text \<open>
  A Python \<open>float\<close> is an IEEE double. Its value is modelled as the rational it denotes,
  and every float operation as the exact operation followed by \<open>fl\<close>, rounding to the
  nearest number with a 53-bit significand, ties to the even significand. The exponent
  range is not modelled: the floats of the searcher are quotients of list lengths and
  their products with 50 and 30, far from overflow and underflow.

  \<open>rne\<close> rounds a rational to the nearest integer, ties to even (Python's \<open>round\<close> on a
  float); \<open>ilog2 q\<close> is the binary exponent of a positive \<open>q\<close>; \<open>py_int\<close> is \<open>int(x)\<close>,
  truncation toward zero.
\<close>

definition rne :: "rat \<Rightarrow> int" where
  "rne x =
     (let f = \<lfloor>x\<rfloor>; d = x - of_int f
      in if d < 1 / 2 then f else if 1 / 2 < d then f + 1 else if even f then f else f + 1)"

definition ilog2 :: "rat \<Rightarrow> int" where
  "ilog2 q =
     (let (a, b) = quotient_of q; d = bitlen a - bitlen b
      in if 2 powi d \<le> q then d else d - 1)"

definition fl :: "rat \<Rightarrow> rat" where
  "fl q =
     (if q = 0 then 0
      else let u = 2 powi (ilog2 \<bar>q\<bar> - 52) in of_int (rne (q / u)) * u)"

definition fmul :: "rat \<Rightarrow> rat \<Rightarrow> rat" where
  "fmul x y = fl (x * y)"

text \<open>\<open>a / b\<close> on two ints: the correctly rounded quotient. Both divisions of the searcher
  are guarded against a zero divisor.\<close>

definition truediv :: "int \<Rightarrow> int \<Rightarrow> rat" where
  "truediv a b = fl (of_int a / of_int b)"

definition py_int :: "rat \<Rightarrow> int" where
  "py_int x = (if 0 \<le> x then \<lfloor>x\<rfloor> else \<lceil>x\<rceil>)"

definition py_round :: "rat \<Rightarrow> int" where
  "py_round x = rne x"

section \<open>The searcher: \<open>core/youtube_searcher.py\<close>\<close>

subsection \<open>\<open>_build_search_query\<close>\<close>

text \<open>
  The five \<open>re.sub\<close> calls all delete the leftmost, non-overlapping matches of a pattern
  of the shape: a literal prefix (matched without regard to case where the call passes
  \<open>re.IGNORECASE\<close>), then \<open>.*?\<close>, then a closing character. A match starting at a given
  position ends at the first closing character that follows the prefix, provided no
  newline comes before it (\<open>.\<close> does not match a newline).
\<close>

fun find_close :: "char \<Rightarrow> string \<Rightarrow> string option" where
  "find_close c [] = None"
| "find_close c (x # xs) =
     (if x = c then Some xs else if x = CHR 0x0A then None else find_close c xs)"

definition match_at :: "bool \<Rightarrow> string \<Rightarrow> char \<Rightarrow> string \<Rightarrow> string option" where
  "match_at ignorecase pre c s =
     (let n = length pre; h = take n s
      in if (if ignorecase then lower h = pre else h = pre) then find_close c (drop n s)
         else None)"

function re_sub :: "bool \<Rightarrow> string \<Rightarrow> char \<Rightarrow> string \<Rightarrow> string" where
  "re_sub ic pre c [] = []"
| "re_sub ic pre c (x # xs) =
     (case match_at ic pre c (x # xs) of
        Some rest \<Rightarrow> re_sub ic pre c rest
      | None \<Rightarrow> x # re_sub ic pre c xs)"
  by pat_completeness auto
termination
proof (relation "measure (\<lambda>(ic, pre, c, s). length s)")
  have shorter: "find_close c s = Some r \<Longrightarrow> length r < length s" for c s r
    by (induction s) (auto split: if_splits)
  fix ic :: bool and pre :: string and c x :: char and xs rest :: string
  assume "match_at ic pre c (x # xs) = Some rest"
  then have "length rest < length (x # xs)"
    by (auto simp: match_at_def Let_def split: if_splits dest!: shorter)
  then show "((ic, pre, c, rest), (ic, pre, c, x # xs)) \<in> measure (\<lambda>(ic, pre, c, s). length s)"
    by simp
qed simp_all

definition build_search_query :: "string \<Rightarrow> string \<Rightarrow> string" where
  "build_search_query track artist =
     (let query = strip (track @ '' '' @ artist);
          query = re_sub True ''(feat.'' (CHR '')'') query;
          query = re_sub True ''(ft.'' (CHR '')'') query;
          query = re_sub True ''(featuring'' (CHR '')'') query;
          query = re_sub False ''['' (CHR '']'') query;
          query = re_sub False ''('' (CHR '')'') query;
          query = join '' '' (py_split query)
      in query)"

subsection \<open>\<open>_calculate_similarity\<close>\<close>

text \<open>
  \<open>difflib.SequenceMatcher(None, a, b).ratio()\<close> belongs to Python's standard library,
  not to this program; it is the parameter \<open>ratio\<close> of every function that reaches it.
\<close>

definition calculate_similarity :: "(string \<Rightarrow> string \<Rightarrow> rat) \<Rightarrow> string \<Rightarrow> string \<Rightarrow> rat" where
  "calculate_similarity ratio str1 str2 =
     (if str1 = str2 then 1
      else if sublist str1 str2 \<or> sublist str2 str1 then fl (8 / 10)
      else
        let words1 = set (py_split str1);
            words2 = set (py_split str2);
            intersection = int (card (words1 \<inter> words2));
            union = int (card (words1 \<union> words2))
        in if words1 \<noteq> {} \<and> words2 \<noteq> {} \<and> union > 0 then truediv intersection union
           else ratio (lower str1) (lower str2))"

subsection \<open>Candidates and scored candidates\<close>

text \<open>The dictionary built for each search result by \<open>_search_with_query\<close>.\<close>

record video_info =
  v_id :: string
  v_title :: string
  v_duration :: int
  v_uploader :: string
  v_view_count :: int
  v_url :: string
  v_webpage_url :: string

text \<open>The dictionary built for each accepted candidate by \<open>_find_best_match\<close>.\<close>

record scored_video =
  sv_url :: string
  sv_title :: string
  sv_duration :: int
  sv_uploader :: string
  sv_view_count :: int
  sv_score :: int
  sv_video_id :: string

subsection \<open>\<open>_find_best_match\<close>: the score of one candidate\<close>

definition good_words :: "string list" where
  "good_words = [''lyrics'', ''lyric video'', ''audio'', ''official audio'']"

definition bad_keywords :: "string list" where
  "bad_keywords =
     [''sing-along'', ''sing along'', ''singalong'',
      ''karaoke'', ''instrumental'', ''remix'',
      ''cover'', ''nightcore'', ''slowed'', ''reverb'',
      ''8d audio'', ''bass boost'', ''sped up'']"

definition track_words :: "string \<Rightarrow> string list" where
  "track_words track_lower = filter (\<lambda>w. length w > 2) (py_split track_lower)"

definition matched_words :: "string \<Rightarrow> string \<Rightarrow> int" where
  "matched_words track_lower title =
     int (length (filter (\<lambda>word. sublist word title) (track_words track_lower)))"

definition match_percent :: "string \<Rightarrow> string \<Rightarrow> rat" where
  "match_percent track_lower title =
     truediv (matched_words track_lower title) (int (length (track_words track_lower)))"

text \<open>Track word match: skipped when no word of the track is longer than two characters.\<close>

definition track_match_score :: "string \<Rightarrow> string \<Rightarrow> int" where
  "track_match_score track_lower title =
     (if track_words track_lower \<noteq> [] then
        (if match_percent track_lower title < 1 / 2 then - 100
         else py_int (fmul (match_percent track_lower title) 50))
      else 0)"

definition artist_presence_score :: "string \<Rightarrow> string \<Rightarrow> string \<Rightarrow> int" where
  "artist_presence_score artist_lower title uploader =
     (if sublist artist_lower title \<or> sublist artist_lower uploader then 20 else - 10)"

definition duration_score :: "int \<Rightarrow> int \<Rightarrow> int" where
  "duration_score expected_duration duration =
     (if expected_duration > 0 \<and> duration > 0 then
        (let duration_diff = \<bar>duration - expected_duration\<bar>
         in if duration_diff \<le> 3 then 30
            else if duration_diff \<le> 10 then 20
            else if duration_diff \<le> 30 then 10
            else - 10)
      else 0)"

definition view_score :: "int \<Rightarrow> int" where
  "view_score view_count =
     (if view_count \<ge> 1000000 then 15
      else if view_count \<ge> 100000 then 10
      else if view_count \<ge> 10000 then 5
      else if view_count \<ge> 1000 then 0
      else - 5)"

text \<open>The loop over \<open>good_words\<close> adds 15 once and breaks.\<close>

definition good_word_score :: "string \<Rightarrow> int" where
  "good_word_score title = (if list_ex (\<lambda>word. sublist word title) good_words then 15 else 0)"

definition official_score :: "string \<Rightarrow> int" where
  "official_score title =
     (if sublist ''official'' title \<and> \<not> sublist ''music video'' title
         \<and> \<not> sublist ''official video'' title
      then 10 else 0)"

definition title_score :: "(string \<Rightarrow> string \<Rightarrow> rat) \<Rightarrow> string \<Rightarrow> string \<Rightarrow> int" where
  "title_score ratio track_lower title =
     (let title_similarity = calculate_similarity ratio track_lower title
      in py_int (fmul title_similarity 50))"

definition artist_similarity :: "(string \<Rightarrow> string \<Rightarrow> rat) \<Rightarrow> string \<Rightarrow> string \<Rightarrow> string \<Rightarrow> rat" where
  "artist_similarity ratio artist_lower uploader title =
     (let artist_in_uploader = calculate_similarity ratio artist_lower uploader;
          artist_in_title = calculate_similarity ratio artist_lower title
      in max artist_in_uploader artist_in_title)"

definition artist_score :: "(string \<Rightarrow> string \<Rightarrow> rat) \<Rightarrow> string \<Rightarrow> string \<Rightarrow> string \<Rightarrow> int" where
  "artist_score ratio artist_lower uploader title =
     py_int (fmul (artist_similarity ratio artist_lower uploader title) 30)"

text \<open>The loop over \<open>bad_keywords\<close> has no break: every keyword found costs 50.\<close>

definition keyword_penalty :: "string \<Rightarrow> int \<Rightarrow> int" where
  "keyword_penalty title score0 =
     fold (\<lambda>keyword s. if sublist keyword title then s - 50 else s) bad_keywords score0"

text \<open>The accumulator \<open>score\<close> after the first two strategies, before the penalty loop.\<close>

definition score_before_penalty ::
  "(string \<Rightarrow> string \<Rightarrow> rat) \<Rightarrow> video_info \<Rightarrow> string \<Rightarrow> string \<Rightarrow> int \<Rightarrow> int" where
  "score_before_penalty ratio video track_name artist_name expected_duration =
     (let title = lower (v_title video);
          track_lower = lower track_name;
          artist_lower = lower artist_name;
          s = 0;
          s = s + track_match_score track_lower title;
          uploader = lower (v_uploader video);
          s = s + artist_presence_score artist_lower title uploader;
          s = s + duration_score expected_duration (v_duration video);
          s = s + view_score (v_view_count video);
          s = s + good_word_score title;
          s = s + official_score title;
          s = s + title_score ratio track_lower title;
          s = s + artist_score ratio artist_lower uploader title
      in s)"

definition score_video ::
  "(string \<Rightarrow> string \<Rightarrow> rat) \<Rightarrow> video_info \<Rightarrow> string \<Rightarrow> string \<Rightarrow> int \<Rightarrow> int" where
  "score_video ratio video track_name artist_name expected_duration =
     keyword_penalty (lower (v_title video))
       (score_before_penalty ratio video track_name artist_name expected_duration)"

subsection \<open>\<open>_find_best_match\<close>: threshold and maximum\<close>

definition make_scored :: "video_info \<Rightarrow> int \<Rightarrow> scored_video" where
  "make_scored video s =
     \<lparr> sv_url = (if v_webpage_url video \<noteq> [] then v_webpage_url video else v_url video),
       sv_title = v_title video,
       sv_duration = v_duration video,
       sv_uploader = v_uploader video,
       sv_view_count = v_view_count video,
       sv_score = s,
       sv_video_id = v_id video \<rparr>"

text \<open>The loop over \<open>videos\<close>: a candidate is appended to \<open>scored_videos\<close> only with a
  score of at least 100.\<close>

fun score_loop ::
  "(string \<Rightarrow> string \<Rightarrow> rat) \<Rightarrow> video_info list \<Rightarrow> string \<Rightarrow> string \<Rightarrow> int \<Rightarrow> scored_video list"
where
  "score_loop ratio [] track_name artist_name expected_duration = []"
| "score_loop ratio (video # videos) track_name artist_name expected_duration =
     (let s = score_video ratio video track_name artist_name expected_duration
      in if s \<ge> 100
         then make_scored video s # score_loop ratio videos track_name artist_name expected_duration
         else score_loop ratio videos track_name artist_name expected_duration)"

text \<open>\<open>max(scored_videos, key=lambda x: x['score'])\<close>: Python's \<open>max\<close> keeps the element it
  holds unless a later one has a strictly greater key.\<close>

fun max_by_score :: "scored_video \<Rightarrow> scored_video list \<Rightarrow> scored_video" where
  "max_by_score best [] = best"
| "max_by_score best (x # xs) = max_by_score (if sv_score x > sv_score best then x else best) xs"

definition find_best_match ::
  "(string \<Rightarrow> string \<Rightarrow> rat) \<Rightarrow> video_info list \<Rightarrow> string \<Rightarrow> string \<Rightarrow> int \<Rightarrow> scored_video option"
where
  "find_best_match ratio videos track_name artist_name expected_duration =
     (case score_loop ratio videos track_name artist_name expected_duration of
        [] \<Rightarrow> None
      | x # xs \<Rightarrow> Some (max_by_score x xs))"

subsection \<open>The catalogue client and \<open>_search_with_query\<close>\<close>

text \<open>
  One record of a \<open>ytmusic.search\<close> response, with the four keys the searcher reads.
  \<open>None\<close> stands for an absent key (for \<open>videoId\<close>, also for the value \<open>None\<close>); each
  entry of \<open>artists\<close> is the \<open>name\<close> of one artist dictionary, \<open>None\<close> when it has none.
\<close>

record search_result =
  res_videoId :: "string option"
  res_title :: "string option"
  res_duration_seconds :: "int option"
  res_artists :: "string option list"

text \<open>
  The client is external and stateful. \<open>'s\<close> is the state of the outside world;
  \<open>ytm_new\<close> is the constructor \<open>YTMusic()\<close>, returning the exception it raised, if any;
  \<open>ytm_search s query filter limit\<close> is one call of \<open>ytmusic.search\<close>, returning the
  exception it raised (\<open>Inl\<close>) or the response (\<open>Inr\<close>), and the next state.
  The \<open>proxy\<close> argument of \<open>search\<close> only changes a copy of the yt-dlp options that
  no request reads, so it is left out.
\<close>

type_synonym exn = string

record 's ytmusic =
  ytm_new :: "'s \<Rightarrow> exn option \<times> 's"
  ytm_search :: "'s \<Rightarrow> string \<Rightarrow> string option \<Rightarrow> int \<Rightarrow> (exn + search_result list) \<times> 's"

definition uploader_of :: "search_result \<Rightarrow> string" where
  "uploader_of result =
     (case res_artists result of
        [] \<Rightarrow> []
      | a # _ \<Rightarrow> (case a of None \<Rightarrow> [] | Some name \<Rightarrow> name))"

definition make_video_info :: "string \<Rightarrow> search_result \<Rightarrow> video_info" where
  "make_video_info vid result =
     (let video_url = ''https://music.youtube.com/watch?v='' @ vid
      in \<lparr> v_id = vid,
           v_title = (case res_title result of None \<Rightarrow> [] | Some t \<Rightarrow> t),
           v_duration = (case res_duration_seconds result of None \<Rightarrow> 0 | Some d \<Rightarrow> d),
           v_uploader = uploader_of result,
           v_view_count = 0,
           v_url = video_url,
           v_webpage_url = video_url \<rparr>)"

text \<open>The loop over the \<open>songs\<close> response: results without a video id are skipped.\<close>

fun songs_loop :: "search_result list \<Rightarrow> video_info list \<Rightarrow> video_info list" where
  "songs_loop [] all_videos = all_videos"
| "songs_loop (result # results) all_videos =
     (case res_videoId result of
        None \<Rightarrow> songs_loop results all_videos
      | Some vid \<Rightarrow>
          if vid = [] then songs_loop results all_videos
          else songs_loop results (all_videos @ [make_video_info vid result]))"

text \<open>The loops over the \<open>videos\<close> and the unfiltered responses: they also skip a result
  whose id is already in \<open>all_videos\<close>.\<close>

fun skip_duplicates_loop :: "search_result list \<Rightarrow> video_info list \<Rightarrow> video_info list" where
  "skip_duplicates_loop [] all_videos = all_videos"
| "skip_duplicates_loop (result # results) all_videos =
     (case res_videoId result of
        None \<Rightarrow> skip_duplicates_loop results all_videos
      | Some vid \<Rightarrow>
          if vid = [] then skip_duplicates_loop results all_videos
          else if list_ex (\<lambda>v. v_id v = vid) all_videos
          then skip_duplicates_loop results all_videos
          else skip_duplicates_loop results (all_videos @ [make_video_info vid result]))"

text \<open>The three requests of one pass, each in its own \<open>try\<close>: an exception leaves
  \<open>all_videos\<close> as it is.\<close>

definition collect ::
  "'s ytmusic \<Rightarrow> string \<Rightarrow> int \<Rightarrow> 's \<Rightarrow> video_info list \<times> 's" where
  "collect ytmusic query max_results s0 =
     (let all_videos = [];
          (r, s1) = ytm_search ytmusic s0 query (Some ''songs'') max_results;
          all_videos = (case r of Inl e \<Rightarrow> all_videos
                        | Inr search_results \<Rightarrow> songs_loop search_results all_videos);
          (r, s2) = ytm_search ytmusic s1 query (Some ''videos'') max_results;
          all_videos = (case r of Inl e \<Rightarrow> all_videos
                        | Inr video_results \<Rightarrow> skip_duplicates_loop video_results all_videos);
          (r, s3) = ytm_search ytmusic s2 query None max_results;
          all_videos = (case r of Inl e \<Rightarrow> all_videos
                        | Inr all_results \<Rightarrow> skip_duplicates_loop all_results all_videos)
      in (all_videos, s3))"

definition search_with_query ::
  "(string \<Rightarrow> string \<Rightarrow> rat) \<Rightarrow> 's ytmusic \<Rightarrow> string \<Rightarrow> string \<Rightarrow> string \<Rightarrow> int \<Rightarrow> int \<Rightarrow> 's
   \<Rightarrow> scored_video option \<times> 's" where
  "search_with_query ratio ytmusic query track_name artist_name duration_seconds max_results s0 =
     (let (all_videos, s) = collect ytmusic query max_results s0
      in if all_videos = [] then (None, s)
         else (find_best_match ratio all_videos track_name artist_name duration_seconds, s))"

subsection \<open>\<open>search\<close>: the three passes\<close>

definition HIGH_CONFIDENCE :: int where
  "HIGH_CONFIDENCE = 180"

text \<open>
  After each pass the source runs the same two steps on the pass's result \<open>best_pass\<close>:
  \<^verbatim>\<open>if best_pass: if not best_overall or best_pass['score'] > best_overall['score']:
  best_overall = best_pass\<close> (pass 1 assigns without the test, \<open>best_overall\<close> being
  \<open>None\<close> there), and, after passes 1 and 2,
  \<^verbatim>\<open>if best_pass: if best_pass['score'] >= HIGH_CONFIDENCE: return best_pass\<close>.
\<close>

definition update_best :: "scored_video option \<Rightarrow> scored_video option \<Rightarrow> scored_video option" where
  "update_best best_overall best_pass =
     (case best_pass of
        None \<Rightarrow> best_overall
      | Some b \<Rightarrow>
          (case best_overall of
             None \<Rightarrow> Some b
           | Some cur \<Rightarrow> if sv_score b > sv_score cur then Some b else Some cur))"

definition high_confidence :: "scored_video option \<Rightarrow> bool" where
  "high_confidence best_pass =
     (case best_pass of None \<Rightarrow> False | Some b \<Rightarrow> sv_score b \<ge> HIGH_CONFIDENCE)"

text \<open>The outer \<open>try\<close> of \<open>search\<close> turns an exception of the constructor into \<open>None\<close>;
  the requests are made inside \<open>_search_with_query\<close>, which raises nothing.\<close>

definition search ::
  "(string \<Rightarrow> string \<Rightarrow> rat) \<Rightarrow> 's ytmusic \<Rightarrow> string \<Rightarrow> string \<Rightarrow> int \<Rightarrow> int \<Rightarrow> 's
   \<Rightarrow> scored_video option \<times> 's" where
  "search ratio api track_name artist_name duration_seconds max_results s0 =
     (case ytm_new api s0 of
        (Some e, s) \<Rightarrow> (None, s)
      | (None, s) \<Rightarrow>
          let best_overall = None;
              query1 = build_search_query track_name [];
              (best_pass1, s) =
                 search_with_query ratio api query1 track_name artist_name duration_seconds max_results s;
              best_overall = (case best_pass1 of None \<Rightarrow> best_overall | Some b \<Rightarrow> Some b)
          in if high_confidence best_pass1 then (best_pass1, s)
             else
               let query2 = build_search_query track_name artist_name;
                   (best_pass2, s) =
                      search_with_query ratio api query2 track_name artist_name duration_seconds max_results s;
                   best_overall = update_best best_overall best_pass2
               in if high_confidence best_pass2 then (best_pass2, s)
                  else
                    let query3 = build_search_query artist_name track_name;
                        (best_pass3, s) =
                           search_with_query ratio api query3 track_name artist_name duration_seconds max_results s;
                        best_overall = update_best best_overall best_pass3
                    in (best_overall, s))"

subsection \<open>Clients used in the examples\<close>

text \<open>
  A scripted client: its state counts the requests made so far, and the \<open>n\<close>-th request
  is answered by the \<open>n\<close>-th entry of the script (by an empty response beyond its end).
\<close>

definition scripted :: "(exn + search_result list) list \<Rightarrow> nat ytmusic" where
  "scripted script =
     \<lparr> ytm_new = (\<lambda>n. (None, n)),
       ytm_search = (\<lambda>n query filter limit.
          (if n < length script then script ! n else Inr [], Suc n)) \<rparr>"

text \<open>The client that answers with an empty response wherever \<open>api\<close> raises.\<close>

definition recovered :: "'s ytmusic \<Rightarrow> 's ytmusic" where
  "recovered api =
     api \<lparr> ytm_search := (\<lambda>s query filter limit.
        (case ytm_search api s query filter limit of
           (Inl e, s') \<Rightarrow> (Inr [], s')
         | (Inr results, s') \<Rightarrow> (Inr results, s'))) \<rparr>"

text \<open>
  A sequence-matcher ratio for the examples: two strings without a common character
  have ratio 0, and the examples reach the ratio only on such strings.
\<close>

definition no_ratio :: "string \<Rightarrow> string \<Rightarrow> rat" where
  "no_ratio a b = 0"

text \<open>A search result with every key present, and the scored candidate made from one.\<close>

definition full_result :: "string \<Rightarrow> string \<Rightarrow> int \<Rightarrow> string \<Rightarrow> search_result" where
  "full_result vid t d artist =
     \<lparr> res_videoId = Some vid, res_title = Some t, res_duration_seconds = Some d,
       res_artists = [Some artist] \<rparr>"

definition scored :: "string \<Rightarrow> string \<Rightarrow> int \<Rightarrow> string \<Rightarrow> int \<Rightarrow> scored_video" where
  "scored vid t d u s =
     \<lparr> sv_url = ''https://music.youtube.com/watch?v='' @ vid, sv_title = t, sv_duration = d,
       sv_uploader = u, sv_view_count = 0, sv_score = s, sv_video_id = vid \<rparr>"

text \<open>
  For the track \<open>Abc\<close> by \<open>Zz\<close> of 100 seconds: \<open>y99\<close>, without artists and duration,
  scores 50 - 10 - 5 + 40 + 24 = 99, and \<open>y100\<close> scores 50 - 10 + 10 - 5 + 15 + 40 = 100.
\<close>

definition y99 :: search_result where
  "y99 = \<lparr> res_videoId = Some ''y0'', res_title = Some ''Abc D'',
            res_duration_seconds = None, res_artists = [] \<rparr>"

definition y100 :: search_result where
  "y100 = full_result ''y1'' ''Abc Audio'' 120 ''Q''"

text \<open>
  For the track \<open>Abc Official\<close> by \<open>Zz\<close> of 100 seconds: \<open>x179 vid\<close> scores
  50 + 20 + 30 - 5 + 10 + 50 + 24 = 179, and \<open>x180\<close> scores
  50 + 20 + 20 - 5 + 15 + 10 + 40 + 30 = 180.
\<close>

definition x179 :: "string \<Rightarrow> search_result" where
  "x179 vid = full_result vid ''Abc Official'' 100 ''Zz Top''"

definition x180 :: search_result where
  "x180 = full_result ''x1'' ''Abc Official Audio'' 105 ''Zz''"

text \<open>Candidates handed to the scorer directly.\<close>

definition one_of_three :: video_info where
  "one_of_three =
     \<lparr> v_id = ''a'', v_title = ''One (Official Audio) lyrics'', v_duration = 222,
       v_uploader = ''The Band'', v_view_count = 500000000, v_url = ''u'', v_webpage_url = ''u'' \<rparr>"

definition remix_video :: video_info where
  "remix_video =
     \<lparr> v_id = ''a'', v_title = ''Abc Remix'', v_duration = 0,
       v_uploader = ''q'', v_view_count = 0, v_url = ''u'', v_webpage_url = ''u'' \<rparr>"

definition karaoke_remix_video :: video_info where
  "karaoke_remix_video =
     \<lparr> v_id = ''b'', v_title = ''Abc Remix Karaoke'', v_duration = 0,
       v_uploader = ''q'', v_view_count = 0, v_url = ''u'', v_webpage_url = ''u'' \<rparr>"

subsection \<open>The rounded deltas of the specification\<close>

text \<open>
  The specification gives the three fraction-scaled deltas as rounded products,
  \<open>round(f * 50)\<close>, \<open>round(sim * 50)\<close> and \<open>round(sim * 30)\<close>. These definitions follow
  its words, to be compared with \<open>track_match_score\<close>, \<open>title_score\<close> and \<open>artist_score\<close>.
\<close>

definition spec_coverage_bonus :: "string \<Rightarrow> string \<Rightarrow> int" where
  "spec_coverage_bonus track_lower title = py_round (fmul (match_percent track_lower title) 50)"

definition spec_title_score :: "(string \<Rightarrow> string \<Rightarrow> rat) \<Rightarrow> string \<Rightarrow> string \<Rightarrow> int" where
  "spec_title_score ratio track_lower title =
     py_round (fmul (calculate_similarity ratio track_lower title) 50)"

definition spec_artist_score :: "(string \<Rightarrow> string \<Rightarrow> rat) \<Rightarrow> string \<Rightarrow> string \<Rightarrow> string \<Rightarrow> int" where
  "spec_artist_score ratio artist_lower uploader title =
     py_round (fmul (max (calculate_similarity ratio artist_lower uploader)
                         (calculate_similarity ratio artist_lower title)) 30)"

section \<open>Lemmas\<close>

subsection \<open>Rounding to the nearest double\<close>

lemma ilog2_bounds:
  assumes "0 < q"
  shows "2 powi (ilog2 q) \<le> q" and "q < 2 powi (ilog2 q + 1)"
proof -
  obtain a b where ab: "quotient_of q = (a, b)" by force
  have b: "0 < b" using quotient_of_denom_pos[OF ab] .
  have q: "q = of_int a / of_int b" using quotient_of_div[OF ab] .
  have a: "0 < a" using assms b unfolding q by (simp add: zero_less_divide_iff)
  define la lb where "la = bitlen a" and "lb = bitlen b"
  have la: "1 \<le> la" and lb: "1 \<le> lb"
    using a b bitlen_eq_zero_iff[of a] bitlen_eq_zero_iff[of b] bitlen_nonneg[of a] bitlen_nonneg[of b]
    unfolding la_def lb_def by linarith+
  have a1: "(2::rat) powi (la - 1) \<le> of_int a" and a2: "of_int a < (2::rat) powi la"
  proof -
    have "2 ^ nat (la - 1) \<le> a" "a < 2 ^ nat la"
      using bitlen_bounds[OF a] unfolding la_def by auto
    then have "(of_int (2 ^ nat (la - 1)) :: rat) \<le> of_int a" "(of_int a :: rat) < of_int (2 ^ nat la)"
      by (simp_all only: of_int_le_iff of_int_less_iff)
    then show "(2::rat) powi (la - 1) \<le> of_int a" "of_int a < (2::rat) powi la"
      using la by (simp_all add: power_int_def)
  qed
  have b1: "(2::rat) powi (lb - 1) \<le> of_int b" and b2: "of_int b < (2::rat) powi lb"
  proof -
    have "2 ^ nat (lb - 1) \<le> b" "b < 2 ^ nat lb"
      using bitlen_bounds[OF b] unfolding lb_def by auto
    then have "(of_int (2 ^ nat (lb - 1)) :: rat) \<le> of_int b" "(of_int b :: rat) < of_int (2 ^ nat lb)"
      by (simp_all only: of_int_le_iff of_int_less_iff)
    then show "(2::rat) powi (lb - 1) \<le> of_int b" "of_int b < (2::rat) powi lb"
      using lb by (simp_all add: power_int_def)
  qed
  have bpos: "(0::rat) < of_int b" using b by simp
  have up: "q < 2 powi (la - lb + 1)"
  proof -
    have "q * of_int b = of_int a" using bpos unfolding q by simp
    also have "\<dots> < 2 powi la" by (rule a2)
    also have "\<dots> = 2 powi (la - lb + 1) * (2::rat) powi (lb - 1)"
      by (simp add: power_int_add[symmetric])
    also have "\<dots> \<le> 2 powi (la - lb + 1) * of_int b"
      using b1 by (simp add: mult_left_mono)
    finally show ?thesis using bpos by simp
  qed
  have low: "2 powi (la - lb - 1) < q"
  proof -
    have "2 powi (la - lb - 1) * of_int b < 2 powi (la - lb - 1) * (2::rat) powi lb"
      using b2 by (simp add: mult_strict_left_mono)
    also have "\<dots> = 2 powi (la - 1)"
      by (simp add: power_int_add[symmetric])
    also have "\<dots> \<le> of_int a" by (rule a1)
    also have "\<dots> = q * of_int b" using bpos unfolding q by simp
    finally show ?thesis using bpos by simp
  qed
  have il: "ilog2 q = (if 2 powi (la - lb) \<le> q then la - lb else la - lb - 1)"
    by (simp add: ilog2_def ab la_def lb_def Let_def)
  show "2 powi (ilog2 q) \<le> q"
    using low by (simp add: il)
  show "q < 2 powi (ilog2 q + 1)"
    using up by (auto simp add: il not_le)
qed

lemma ilog2_less:
  assumes "0 < q" and "q < 2 powi n"
  shows "ilog2 q < n"
proof (rule ccontr)
  assume "\<not> ilog2 q < n"
  then have "n \<le> ilog2 q" by simp
  then have "(2::rat) powi n \<le> 2 powi (ilog2 q)"
    by (rule power_int_increasing) simp
  also have "\<dots> \<le> q" by (rule ilog2_bounds(1)[OF assms(1)])
  finally show False using assms(2) by simp
qed

lemma rne_cases: "rne x = \<lfloor>x\<rfloor> \<or> (rne x = \<lfloor>x\<rfloor> + 1 \<and> of_int \<lfloor>x\<rfloor> < x)"
  by (auto simp: rne_def Let_def)

lemma rne_le: "x \<le> of_int N \<Longrightarrow> rne x \<le> N"
proof -
  assume x: "x \<le> of_int N"
  have f: "\<lfloor>x\<rfloor> \<le> N" using x by (simp add: floor_le_iff)
  show ?thesis
  proof (cases "rne x = \<lfloor>x\<rfloor>")
    case True
    then show ?thesis using f by simp
  next
    case False
    then have r: "rne x = \<lfloor>x\<rfloor> + 1" and lt: "of_int \<lfloor>x\<rfloor> < x"
      using rne_cases[of x] by auto
    have "of_int \<lfloor>x\<rfloor> < (of_int N :: rat)" using lt x by simp
    then have "\<lfloor>x\<rfloor> < N" by simp
    then show ?thesis using r by simp
  qed
qed

lemma rne_ge: "of_int N \<le> x \<Longrightarrow> N \<le> rne x"
proof -
  assume "of_int N \<le> x"
  then have "N \<le> \<lfloor>x\<rfloor>" by (simp add: le_floor_iff)
  then show ?thesis using rne_cases[of x] by auto
qed

lemma fl_pos_def:
  "0 < q \<Longrightarrow> fl q = of_int (rne (q / 2 powi (ilog2 q - 52))) * 2 powi (ilog2 q - 52)"
  by (simp add: fl_def Let_def)

lemma fl_nonneg: "0 \<le> q \<Longrightarrow> 0 \<le> fl q"
proof (cases "q = 0")
  case True
  then show ?thesis by (simp add: fl_def)
next
  case False
  assume "0 \<le> q"
  with False have q: "0 < q" by simp
  have "of_int 0 \<le> q / 2 powi (ilog2 q - 52)" using q by simp
  then have "0 \<le> rne (q / 2 powi (ilog2 q - 52))" by (rule rne_ge)
  then show ?thesis unfolding fl_pos_def[OF q] by simp
qed

text \<open>A bound that lies on the grid of the float's binade survives the rounding.\<close>

lemma dyadic_on_grid:
  assumes "e \<le> j"
  shows "\<exists>N. of_int M * (2::rat) powi j = of_int N * 2 powi e"
proof -
  have "(2::rat) powi j = 2 powi (j - e) * 2 powi e"
    by (simp add: power_int_add[symmetric])
  also have "(2::rat) powi (j - e) = of_int (2 ^ nat (j - e))"
    using assms by (simp add: power_int_def)
  finally have "of_int M * (2::rat) powi j = of_int (M * 2 ^ nat (j - e)) * 2 powi e"
    by simp
  then show ?thesis by blast
qed

lemma fl_le_dyadic:
  assumes q: "0 < q" and le: "q \<le> of_int M * 2 powi j" and j: "ilog2 q - 52 \<le> j"
  shows "fl q \<le> of_int M * 2 powi j"
proof -
  define u :: rat where "u = 2 powi (ilog2 q - 52)"
  have u: "0 < u" by (simp add: u_def)
  obtain N where N: "of_int M * (2::rat) powi j = of_int N * u"
    using dyadic_on_grid[OF j] unfolding u_def by blast
  have "q / u \<le> of_int N" using le u unfolding N by (simp add: pos_divide_le_eq)
  then have "rne (q / u) \<le> N" by (rule rne_le)
  then have "(of_int (rne (q / u)) :: rat) \<le> of_int N" by simp
  then have "of_int (rne (q / u)) * u \<le> of_int N * u"
    using u by (simp add: mult_right_mono)
  then show ?thesis unfolding fl_pos_def[OF q] N u_def .
qed

lemma fl_ge_dyadic:
  assumes q: "0 < q" and le: "of_int M * 2 powi j \<le> q" and j: "ilog2 q - 52 \<le> j"
  shows "of_int M * 2 powi j \<le> fl q"
proof -
  define u :: rat where "u = 2 powi (ilog2 q - 52)"
  have u: "0 < u" by (simp add: u_def)
  obtain N where N: "of_int M * (2::rat) powi j = of_int N * u"
    using dyadic_on_grid[OF j] unfolding u_def by blast
  have "of_int N \<le> q / u" using le u unfolding N by (simp add: pos_le_divide_eq)
  then have "N \<le> rne (q / u)" by (rule rne_ge)
  then have "(of_int N :: rat) \<le> of_int (rne (q / u))" by simp
  then have "of_int N * u \<le> of_int (rne (q / u)) * u"
    using u by (simp add: mult_right_mono)
  then show ?thesis unfolding fl_pos_def[OF q] N u_def .
qed

lemma fl_le_int:
  assumes "0 \<le> q" and "q \<le> of_int M" and "M < 2 ^ 53"
  shows "fl q \<le> of_int M"
proof (cases "q = 0")
  case True
  then show ?thesis using assms by (simp add: fl_def)
next
  case False
  with assms have q: "0 < q" by simp
  have "q < 2 powi 53"
  proof -
    have "(of_int M :: rat) < of_int (2 ^ 53)" using assms(3) by (simp only: of_int_less_iff)
    then show ?thesis using assms(2) by simp
  qed
  then have "ilog2 q < 53" by (rule ilog2_less[OF q])
  then have "ilog2 q - 52 \<le> 0" by simp
  from fl_le_dyadic[OF q _ this, of M] assms(2) show ?thesis by simp
qed

lemma fl_le_one: "0 \<le> q \<Longrightarrow> q \<le> 1 \<Longrightarrow> fl q \<le> 1"
  using fl_le_int[of q 1] by simp

lemma fl_ge_half:
  assumes "1 / 2 \<le> q" and "q \<le> 1"
  shows "1 / 2 \<le> fl q"
proof -
  have q: "0 < q" using assms by simp
  have "q < 2 powi 1" using assms by simp
  then have "ilog2 q < 1" by (rule ilog2_less[OF q])
  then have j: "ilog2 q - 52 \<le> - 1" by simp
  have "of_int 1 * (2::rat) powi (- 1) \<le> q" using assms by simp
  from fl_ge_dyadic[OF q this j] show ?thesis by simp
qed

lemma truediv_less_half:
  assumes k: "0 \<le> k" and n: "2 * k < n" and big: "n < 2 ^ 53"
  shows "truediv k n < 1 / 2"
proof (cases "k = 0")
  case True
  then show ?thesis by (simp add: truediv_def fl_def)
next
  case False
  define q :: rat where "q = of_int k / of_int n"
  have npos: "(0::rat) < of_int n" using k n by simp
  have q: "0 < q" using False k npos by (simp add: q_def)
  have qh: "q < 2 powi (- 1)"
  proof -
    have "(of_int (2 * k) :: rat) < of_int n" using n by (simp only: of_int_less_iff)
    then show ?thesis using npos by (simp add: q_def pos_divide_less_eq)
  qed
  have "ilog2 q < - 1" by (rule ilog2_less[OF q qh])
  then have j: "ilog2 q - 52 \<le> - 54" by simp
  have le: "q \<le> of_int (2 ^ 53 - 1) * 2 powi (- 54)"
  proof -
    have "2 * k + 1 \<le> n" using n by simp
    then have "(2 * k + 1) * 2 ^ 53 \<le> n * 2 ^ 53" by simp
    moreover have "n * 2 ^ 53 - n \<ge> n * 2 ^ 53 - 2 ^ 53 + 1" using big by simp
    ultimately have "k * 2 ^ 54 \<le> n * (2 ^ 53 - 1)" by (simp add: algebra_simps)
    then have "(of_int (k * 2 ^ 54) :: rat) \<le> of_int (n * (2 ^ 53 - 1))"
      by (simp only: of_int_le_iff)
    then have "(of_int k :: rat) * 2 ^ 54 \<le> of_int n * (2 ^ 53 - 1)" by simp
    then show ?thesis using npos
      by (simp add: q_def pos_divide_le_eq power_int_minus_divide field_simps)
  qed
  have "fl q \<le> of_int (2 ^ 53 - 1) * 2 powi (- 54)"
    by (rule fl_le_dyadic[OF q le j])
  also have "\<dots> < 1 / 2" by (simp add: power_int_minus_divide)
  finally show ?thesis by (simp add: truediv_def q_def)
qed

lemma truediv_ge_half:
  assumes "0 < n" and "n \<le> 2 * k" and "k \<le> n"
  shows "1 / 2 \<le> truediv k n"
proof -
  have npos: "(0::rat) < of_int n" using assms by simp
  have "(of_int n :: rat) \<le> of_int (2 * k)" using assms(2) by (simp only: of_int_le_iff)
  then have 1: "1 / 2 \<le> (of_int k :: rat) / of_int n"
    using npos by (simp add: pos_le_divide_eq)
  have "(of_int k :: rat) \<le> of_int n" using assms(3) by (simp only: of_int_le_iff)
  then have 2: "(of_int k :: rat) / of_int n \<le> 1"
    using npos by (simp add: pos_divide_le_eq)
  show ?thesis unfolding truediv_def by (rule fl_ge_half[OF 1 2])
qed

lemma truediv_range:
  assumes "0 \<le> k" and "k \<le> n"
  shows "0 \<le> truediv k n" and "truediv k n \<le> 1"
proof -
  have q0: "0 \<le> (of_int k :: rat) / of_int n" using assms by simp
  have q1: "(of_int k :: rat) / of_int n \<le> 1"
  proof (cases "n = 0")
    case True
    then show ?thesis by simp
  next
    case False
    with assms have "(0::rat) < of_int n" by simp
    moreover have "(of_int k :: rat) \<le> of_int n" using assms(2) by (simp only: of_int_le_iff)
    ultimately show ?thesis by (simp add: pos_divide_le_eq)
  qed
  show "0 \<le> truediv k n" unfolding truediv_def by (rule fl_nonneg[OF q0])
  show "truediv k n \<le> 1" unfolding truediv_def by (rule fl_le_one[OF q0 q1])
qed

text \<open>\<open>int(x * c)\<close> for a float \<open>x\<close> in \<open>[0, 1]\<close> and a small non-negative integer \<open>c\<close>.\<close>

lemma py_int_fmul_range:
  assumes "0 \<le> x" and "x \<le> 1" and "0 \<le> c" and "c < 2 ^ 53"
  shows "0 \<le> py_int (fmul x (of_int c))" and "py_int (fmul x (of_int c)) \<le> c"
proof -
  have c: "(0::rat) \<le> of_int c" using assms(3) by simp
  have p0: "0 \<le> x * of_int c" using assms(1) c by simp
  have p1: "x * of_int c \<le> of_int c" using mult_right_mono[OF assms(2) c] by simp
  have f0: "0 \<le> fmul x (of_int c)" unfolding fmul_def by (rule fl_nonneg[OF p0])
  have f1: "fmul x (of_int c) \<le> of_int c" unfolding fmul_def by (rule fl_le_int[OF p0 p1 assms(4)])
  show "0 \<le> py_int (fmul x (of_int c))" using f0 by (simp add: py_int_def)
  show "py_int (fmul x (of_int c)) \<le> c" using f0 f1 by (simp add: py_int_def floor_le_iff)
qed

lemma rne_error: "\<bar>of_int (rne x) - x\<bar> \<le> 1 / 2"
proof -
  define d where "d = x - of_int \<lfloor>x\<rfloor>"
  have d: "0 \<le> d" "d < 1" unfolding d_def by linarith+
  have x: "x = of_int \<lfloor>x\<rfloor> + d" by (simp add: d_def)
  have "rne x = (if d < 1 / 2 then \<lfloor>x\<rfloor> else if 1 / 2 < d then \<lfloor>x\<rfloor> + 1
                 else if even \<lfloor>x\<rfloor> then \<lfloor>x\<rfloor> else \<lfloor>x\<rfloor> + 1)"
    by (simp add: rne_def Let_def d_def)
  then have "of_int (rne x) - x = - d \<or> of_int (rne x) - x = 1 - d"
    and "of_int (rne x) - x = - d \<longrightarrow> d \<le> 1 / 2"
    and "of_int (rne x) - x = 1 - d \<longrightarrow> 1 / 2 \<le> d"
    using x d by (auto split: if_splits)
  then show ?thesis using d by (auto simp: abs_if)
qed

lemma fl_error:
  assumes "0 < q"
  shows "\<bar>fl q - q\<bar> \<le> q / 2 ^ 53"
proof -
  define u :: rat where "u = 2 powi (ilog2 q - 52)"
  have u: "0 < u" by (simp add: u_def)
  have "fl q - q = (of_int (rne (q / u)) - q / u) * u"
    using u by (simp add: fl_pos_def[OF assms] u_def algebra_simps)
  then have "\<bar>fl q - q\<bar> = \<bar>of_int (rne (q / u)) - q / u\<bar> * u"
    using u by (simp add: abs_mult)
  also have "\<dots> \<le> 1 / 2 * u"
    using rne_error[of "q / u"] u by (intro mult_right_mono) simp_all
  also have "\<dots> = 2 powi (ilog2 q) / 2 ^ 53"
    by (simp add: u_def power_int_diff)
  also have "\<dots> \<le> q / 2 ^ 53"
    using ilog2_bounds(1)[OF assms] by (simp add: divide_right_mono)
  finally show ?thesis .
qed

lemma floor_le_rne: "\<lfloor>x\<rfloor> \<le> rne x" and rne_le_floor: "rne x \<le> \<lfloor>x\<rfloor> + 1"
  using rne_cases[of x] by auto

lemma py_int_floor: "0 \<le> x \<Longrightarrow> py_int x = \<lfloor>x\<rfloor>"
  by (simp add: py_int_def)

subsection \<open>Ranges of the sub-scores\<close>

lemma calculate_similarity_range:
  assumes "\<forall>x y. 0 \<le> ratio x y \<and> ratio x y \<le> 1"
  shows "0 \<le> calculate_similarity ratio a b" and "calculate_similarity ratio a b \<le> 1"
proof -
  have c: "int (card (set (py_split a) \<inter> set (py_split b)))
             \<le> int (card (set (py_split a) \<union> set (py_split b)))"
    by (intro of_nat_mono card_mono) auto
  have f8: "0 \<le> fl (8 / 10)" "fl (8 / 10) \<le> 1"
    by (rule fl_nonneg, simp) (rule fl_le_one, simp_all)
  show "0 \<le> calculate_similarity ratio a b"
    using assms f8 truediv_range(1)[OF _ c] by (simp add: calculate_similarity_def Let_def)
  show "calculate_similarity ratio a b \<le> 1"
    using assms f8 truediv_range(2)[OF _ c] by (simp add: calculate_similarity_def Let_def)
qed

lemma fold_penalty:
  "fold (\<lambda>keyword s. if P keyword then s - 50 else s) ks (s0::int)
     = s0 - 50 * int (length (filter P ks))"
  by (induction ks arbitrary: s0) simp_all

lemma keyword_penalty_eq:
  "keyword_penalty title s
     = s - 50 * int (length (filter (\<lambda>keyword. sublist keyword title) bad_keywords))"
  unfolding keyword_penalty_def by (rule fold_penalty)

lemma score_before_penalty_sum:
  "score_before_penalty ratio video track_name artist_name expected_duration =
     track_match_score (lower track_name) (lower (v_title video))
     + artist_presence_score (lower artist_name) (lower (v_title video)) (lower (v_uploader video))
     + duration_score expected_duration (v_duration video)
     + view_score (v_view_count video)
     + good_word_score (lower (v_title video))
     + official_score (lower (v_title video))
     + title_score ratio (lower track_name) (lower (v_title video))
     + artist_score ratio (lower artist_name) (lower (v_uploader video)) (lower (v_title video))"
  by (simp add: score_before_penalty_def Let_def)

lemma title_score_range:
  assumes "\<forall>x y. 0 \<le> ratio x y \<and> ratio x y \<le> 1"
  shows "0 \<le> title_score ratio t c" and "title_score ratio t c \<le> 50"
  using py_int_fmul_range[OF calculate_similarity_range[OF assms, of t c], of 50]
  by (simp_all add: title_score_def Let_def)

lemma artist_similarity_range:
  assumes "\<forall>x y. 0 \<le> ratio x y \<and> ratio x y \<le> 1"
  shows "0 \<le> artist_similarity ratio a u t" and "artist_similarity ratio a u t \<le> 1"
  using calculate_similarity_range[OF assms, of a u] calculate_similarity_range[OF assms, of a t]
  by (simp_all add: artist_similarity_def Let_def max_def)

lemma artist_score_range:
  assumes "\<forall>x y. 0 \<le> ratio x y \<and> ratio x y \<le> 1"
  shows "0 \<le> artist_score ratio a u t" and "artist_score ratio a u t \<le> 30"
  using py_int_fmul_range[OF artist_similarity_range[OF assms, of a u t], of 30]
  by (simp_all add: artist_score_def)

lemma small_scores_le:
  "artist_presence_score a t u \<le> 20" "duration_score e d \<le> 30" "view_score n \<le> 15"
  "good_word_score t \<le> 15" "official_score t \<le> 10"
  by (simp_all add: artist_presence_score_def duration_score_def view_score_def
        good_word_score_def official_score_def Let_def)

lemma matched_words_le:
  shows "matched_words trk t \<le> int (length (track_words trk))" and "0 \<le> matched_words trk t"
  by (simp_all add: matched_words_def)

lemma match_percent_less_half:
  assumes "2 * matched_words trk t < int (length (track_words trk))"
    and "length (track_words trk) < 2 ^ 53"
  shows "match_percent trk t < 1 / 2"
proof -
  have "int (length (track_words trk)) < 2 ^ 53"
    using assms(2) by (metis of_nat_less_iff of_nat_numeral of_nat_power)
  then show ?thesis
    unfolding match_percent_def
    by (intro truediv_less_half matched_words_le(2) assms(1))
qed

lemma match_percent_ge_half:
  assumes "int (length (track_words trk)) \<le> 2 * matched_words trk t" and "track_words trk \<noteq> []"
  shows "1 / 2 \<le> match_percent trk t"
  unfolding match_percent_def
  using assms by (intro truediv_ge_half matched_words_le(1)) simp_all

subsection \<open>Threshold and first maximum\<close>

lemma score_loop_eq:
  "score_loop ratio videos t a d =
     map (\<lambda>v. make_scored v (score_video ratio v t a d))
         (filter (\<lambda>v. 100 \<le> score_video ratio v t a d) videos)"
  by (induction videos) (simp_all add: Let_def)

lemma sv_score_make_scored [simp]: "sv_score (make_scored v s) = s"
  by (simp add: make_scored_def)

text \<open>Python's \<open>max\<close> returns the first of the elements with the greatest key.\<close>

lemma max_by_score_first:
  assumes "\<forall>u\<in>set pre. sv_score u < sv_score best"
    and "\<forall>u\<in>set mid. sv_score u \<le> sv_score best"
  shows "\<exists>pre' post'. pre @ best # mid @ xs = pre' @ max_by_score best xs # post'
            \<and> (\<forall>u\<in>set pre'. sv_score u < sv_score (max_by_score best xs))
            \<and> (\<forall>u\<in>set post'. sv_score u \<le> sv_score (max_by_score best xs))"
  using assms
proof (induction xs arbitrary: pre best mid)
  case Nil
  then show ?case by auto
next
  case (Cons x xs)
  show ?case
  proof (cases "sv_score x > sv_score best")
    case True
    have "\<forall>u\<in>set (pre @ best # mid). sv_score u < sv_score x"
      using Cons.prems True by fastforce
    from Cons.IH[of "pre @ best # mid" x "[]", OF this] True
    show ?thesis by simp
  next
    case False
    have "\<forall>u\<in>set (mid @ [x]). sv_score u \<le> sv_score best"
      using Cons.prems False by auto
    from Cons.IH[of pre best "mid @ [x]", OF Cons.prems(1) this] False
    show ?thesis by simp
  qed
qed

lemma map_filter_split:
  assumes "map f (filter P vs) = pre @ b # post"
  shows "\<exists>A v B. vs = A @ v # B \<and> P v \<and> f v = b
            \<and> map f (filter P A) = pre \<and> map f (filter P B) = post"
  using assms
proof (induction vs arbitrary: pre)
  case Nil
  then show ?case by simp
next
  case (Cons y ys)
  show ?case
  proof (cases "P y")
    case False
    with Cons.prems have "map f (filter P ys) = pre @ b # post" by simp
    from Cons.IH[OF this] obtain A v B where
      "ys = A @ v # B" "P v" "f v = b" "map f (filter P A) = pre" "map f (filter P B) = post"
      by blast
    then have "y # ys = (y # A) @ v # B \<and> P v \<and> f v = b
        \<and> map f (filter P (y # A)) = pre \<and> map f (filter P B) = post"
      using False by simp
    then show ?thesis by blast
  next
    case True
    show ?thesis
    proof (cases pre)
      case Nil
      with Cons.prems True have "y # ys = [] @ y # ys \<and> P y \<and> f y = b
        \<and> map f (filter P []) = pre \<and> map f (filter P ys) = post" by simp
      then show ?thesis by blast
    next
      case (Cons p pre')
      with Cons.prems True have py: "f y = p" and "map f (filter P ys) = pre' @ b # post" by simp_all
      from Cons.IH[OF this(2)] obtain A v B where
        "ys = A @ v # B" "P v" "f v = b" "map f (filter P A) = pre'" "map f (filter P B) = post"
        by blast
      then have "y # ys = (y # A) @ v # B \<and> P v \<and> f v = b
          \<and> map f (filter P (y # A)) = pre \<and> map f (filter P B) = post"
        using True py Cons by simp
      then show ?thesis by blast
    qed
  qed
qed

lemma find_best_match_None_iff:
  "find_best_match ratio videos t a d = None
     \<longleftrightarrow> (\<forall>v\<in>set videos. score_video ratio v t a d < 100)"
proof -
  have "find_best_match ratio videos t a d = None
          \<longleftrightarrow> filter (\<lambda>v. 100 \<le> score_video ratio v t a d) videos = []"
    by (cases "filter (\<lambda>v. 100 \<le> score_video ratio v t a d) videos")
       (simp_all add: find_best_match_def score_loop_eq)
  then show ?thesis by (auto simp: filter_empty_conv not_le)
qed

lemma find_best_match_Some:
  assumes "find_best_match ratio videos t a d = Some b"
  shows "\<exists>A v B. videos = A @ v # B
            \<and> b = make_scored v (score_video ratio v t a d)
            \<and> 100 \<le> score_video ratio v t a d
            \<and> (\<forall>u\<in>set A. score_video ratio u t a d < score_video ratio v t a d)
            \<and> (\<forall>u\<in>set B. score_video ratio u t a d \<le> score_video ratio v t a d)"
proof -
  let ?sc = "\<lambda>v. score_video ratio v t a d"
  let ?f = "\<lambda>v. make_scored v (?sc v)"
  let ?P = "\<lambda>v. 100 \<le> ?sc v"
  from assms obtain x xs where xs: "map ?f (filter ?P videos) = x # xs"
    and b: "b = max_by_score x xs"
    by (auto simp: find_best_match_def score_loop_eq split: list.splits)
  from max_by_score_first[of "[]" x "[]" xs] obtain pre post where
    d: "x # xs = pre @ b # post"
    and pre: "\<forall>u\<in>set pre. sv_score u < sv_score b"
    and post: "\<forall>u\<in>set post. sv_score u \<le> sv_score b"
    unfolding b by auto
  from map_filter_split[of ?f ?P videos pre b post] xs d obtain A v B where
    v: "videos = A @ v # B" "?P v" "?f v = b"
    and A: "map ?f (filter ?P A) = pre" and B: "map ?f (filter ?P B) = post"
    by auto
  have sb: "sv_score b = ?sc v" using v(3) by auto
  have "?sc u < ?sc v" if "u \<in> set A" for u
  proof (cases "?P u")
    case True
    then have "?f u \<in> set pre" using that A by force
    then show ?thesis using pre sb by fastforce
  next
    case False
    then show ?thesis using v(2) by simp
  qed
  moreover have "?sc u \<le> ?sc v" if "u \<in> set B" for u
  proof (cases "?P u")
    case True
    then have "?f u \<in> set post" using that B by force
    then show ?thesis using post sb by fastforce
  next
    case False
    then show ?thesis using v(2) by simp
  qed
  ultimately show ?thesis using v by blast
qed

subsection \<open>The collector\<close>

lemma make_video_info_fields [simp]:
  "v_view_count (make_video_info vid r) = 0" "v_id (make_video_info vid r) = vid"
  by (simp_all add: make_video_info_def Let_def)

lemma songs_loop_eq:
  "songs_loop rs acc =
     acc @ map (\<lambda>r. make_video_info (the (res_videoId r)) r)
               (filter (\<lambda>r. res_videoId r \<noteq> None \<and> res_videoId r \<noteq> Some []) rs)"
proof (induction rs arbitrary: acc)
  case Nil
  then show ?case by simp
next
  case (Cons r rs)
  show ?case
  proof (cases "res_videoId r")
    case None
    then show ?thesis using Cons.IH[of acc] by simp
  next
    case (Some vid)
    then show ?thesis
      using Cons.IH[of acc] Cons.IH[of "acc @ [make_video_info vid r]"] by simp
  qed
qed

lemma skip_duplicates_loop_append:
  "\<exists>new. skip_duplicates_loop rs acc = acc @ new
      \<and> (\<forall>v\<in>set new. \<exists>r\<in>set rs. res_videoId r = Some (v_id v) \<and> v = make_video_info (v_id v) r)"
proof (induction rs arbitrary: acc)
  case Nil
  then show ?case by simp
next
  case (Cons r rs)
  show ?case
  proof (cases "\<exists>vid. res_videoId r = Some vid \<and> vid \<noteq> [] \<and> \<not> list_ex (\<lambda>v. v_id v = vid) acc")
    case False
    then have "skip_duplicates_loop (r # rs) acc = skip_duplicates_loop rs acc"
      by (cases "res_videoId r") auto
    moreover from Cons.IH[of acc] obtain new where
      "skip_duplicates_loop rs acc = acc @ new"
      "\<forall>v\<in>set new. \<exists>r\<in>set rs. res_videoId r = Some (v_id v) \<and> v = make_video_info (v_id v) r"
      by blast
    ultimately have "skip_duplicates_loop (r # rs) acc = acc @ new
      \<and> (\<forall>v\<in>set new. \<exists>r'\<in>set (r # rs). res_videoId r' = Some (v_id v) \<and> v = make_video_info (v_id v) r')"
      by simp
    then show ?thesis by blast
  next
    case True
    then obtain vid where vid: "res_videoId r = Some vid" "vid \<noteq> []"
      "\<not> list_ex (\<lambda>v. v_id v = vid) acc" by blast
    then have e: "skip_duplicates_loop (r # rs) acc
                 = skip_duplicates_loop rs (acc @ [make_video_info vid r])" by simp
    from Cons.IH[of "acc @ [make_video_info vid r]"] obtain new where
      n: "skip_duplicates_loop rs (acc @ [make_video_info vid r]) = (acc @ [make_video_info vid r]) @ new"
      "\<forall>v\<in>set new. \<exists>r\<in>set rs. res_videoId r = Some (v_id v) \<and> v = make_video_info (v_id v) r"
      by blast
    have "skip_duplicates_loop (r # rs) acc = acc @ (make_video_info vid r # new)"
      using e n(1) by simp
    moreover have "\<forall>v\<in>set (make_video_info vid r # new).
        \<exists>r'\<in>set (r # rs). res_videoId r' = Some (v_id v) \<and> v = make_video_info (v_id v) r'"
      using n(2) vid(1) by simp
    ultimately show ?thesis by blast
  qed
qed

lemma songs_loop_views:
  assumes "\<forall>v\<in>set acc. v_view_count v = 0"
  shows "\<forall>v\<in>set (songs_loop rs acc). v_view_count v = 0"
  unfolding songs_loop_eq[of rs acc] using assms by auto

lemma skip_duplicates_loop_views:
  assumes "\<forall>v\<in>set acc. v_view_count v = 0"
  shows "\<forall>v\<in>set (skip_duplicates_loop rs acc). v_view_count v = 0"
proof -
  from skip_duplicates_loop_append[of rs acc] obtain new where
    n: "skip_duplicates_loop rs acc = acc @ new"
    "\<forall>v\<in>set new. \<exists>r\<in>set rs. res_videoId r = Some (v_id v) \<and> v = make_video_info (v_id v) r"
    by blast
  have "v_view_count v = 0" if "v \<in> set new" for v
  proof -
    from n(2) that obtain r where "v = make_video_info (v_id v) r" by blast
    then show ?thesis by (metis make_video_info_fields(1))
  qed
  then show ?thesis unfolding n(1) using assms by auto
qed

text \<open>The candidate list after each of the three requests of one pass.\<close>

lemma collect_steps:
  assumes "ytm_search api s0 q (Some ''songs'') m = (x1, s1)"
    and "ytm_search api s1 q (Some ''videos'') m = (x2, s2)"
    and "ytm_search api s2 q None m = (x3, s3)"
  shows "collect api q m s0 =
           (let v1 = (case x1 of Inl e \<Rightarrow> [] | Inr rs \<Rightarrow> songs_loop rs []);
                v2 = (case x2 of Inl e \<Rightarrow> v1 | Inr rs \<Rightarrow> skip_duplicates_loop rs v1);
                v3 = (case x3 of Inl e \<Rightarrow> v2 | Inr rs \<Rightarrow> skip_duplicates_loop rs v2)
            in (v3, s3))"
  using assms by (simp add: collect_def Let_def)

lemma collect_views: "\<forall>v\<in>set (fst (collect api q m s)). v_view_count v = 0"
proof -
  obtain x1 s1 where 1: "ytm_search api s q (Some ''songs'') m = (x1, s1)" by force
  obtain x2 s2 where 2: "ytm_search api s1 q (Some ''videos'') m = (x2, s2)" by force
  obtain x3 s3 where 3: "ytm_search api s2 q None m = (x3, s3)" by force
  define v1 where "v1 = (case x1 of Inl e \<Rightarrow> [] | Inr rs \<Rightarrow> songs_loop rs [])"
  define v2 where "v2 = (case x2 of Inl e \<Rightarrow> v1 | Inr rs \<Rightarrow> skip_duplicates_loop rs v1)"
  define v3 where "v3 = (case x3 of Inl e \<Rightarrow> v2 | Inr rs \<Rightarrow> skip_duplicates_loop rs v2)"
  have a: "\<forall>v\<in>set v1. v_view_count v = 0"
    unfolding v1_def using songs_loop_views[of "[]"] by (cases x1) simp_all
  have b: "\<forall>v\<in>set v2. v_view_count v = 0"
    unfolding v2_def using skip_duplicates_loop_views[OF a] a by (cases x2) simp_all
  have c: "\<forall>v\<in>set v3. v_view_count v = 0"
    unfolding v3_def using skip_duplicates_loop_views[OF b] b by (cases x3) simp_all
  show ?thesis
    using c unfolding collect_steps[OF 1 2 3] v1_def v2_def v3_def by (simp add: Let_def)
qed

lemma collect_recovered: "collect (recovered api) q m s = collect api q m s"
proof -
  obtain x1 s1 where 1: "ytm_search api s q (Some ''songs'') m = (x1, s1)" by force
  obtain x2 s2 where 2: "ytm_search api s1 q (Some ''videos'') m = (x2, s2)" by force
  obtain x3 s3 where 3: "ytm_search api s2 q None m = (x3, s3)" by force
  have r: "ytm_search (recovered api) s' q' f m' =
            (case ytm_search api s' q' f m' of (Inl e, t) \<Rightarrow> (Inr [], t) | (Inr rs, t) \<Rightarrow> (Inr rs, t))"
    for s' q' f m'
    by (simp add: recovered_def)
  have a1: "ytm_search (recovered api) s q (Some ''songs'') m
              = (case x1 of Inl e \<Rightarrow> Inr [] | Inr rs \<Rightarrow> Inr rs, s1)"
    unfolding r 1 by (cases x1) simp_all
  have a2: "ytm_search (recovered api) s1 q (Some ''videos'') m
              = (case x2 of Inl e \<Rightarrow> Inr [] | Inr rs \<Rightarrow> Inr rs, s2)"
    unfolding r 2 by (cases x2) simp_all
  have a3: "ytm_search (recovered api) s2 q None m
              = (case x3 of Inl e \<Rightarrow> Inr [] | Inr rs \<Rightarrow> Inr rs, s3)"
    unfolding r 3 by (cases x3) simp_all
  show ?thesis
    unfolding collect_steps[OF 1 2 3] collect_steps[OF a1 a2 a3]
    by (cases x1; cases x2; cases x3) (simp_all add: Let_def)
qed

lemma search_with_query_recovered:
  "search_with_query ratio (recovered api) q t a d m s = search_with_query ratio api q t a d m s"
  by (simp add: search_with_query_def collect_recovered)

lemma search_recovered:
  "search ratio (recovered api) t a d m s = search ratio api t a d m s"
proof -
  have n: "ytm_new (recovered api) = ytm_new api" by (simp add: recovered_def)
  show ?thesis unfolding search_def n search_with_query_recovered by (rule refl)
qed

lemma collect_empty:
  assumes "\<forall>s q f. case fst (ytm_search api s q f m) of Inl e \<Rightarrow> True | Inr rs \<Rightarrow> rs = []"
  shows "fst (collect api q m s) = []"
proof -
  obtain x1 s1 where 1: "ytm_search api s q (Some ''songs'') m = (x1, s1)" by force
  obtain x2 s2 where 2: "ytm_search api s1 q (Some ''videos'') m = (x2, s2)" by force
  obtain x3 s3 where 3: "ytm_search api s2 q None m = (x3, s3)" by force
  have "case x1 of Inl e \<Rightarrow> True | Inr rs \<Rightarrow> rs = []"
    "case x2 of Inl e \<Rightarrow> True | Inr rs \<Rightarrow> rs = []"
    "case x3 of Inl e \<Rightarrow> True | Inr rs \<Rightarrow> rs = []"
    using assms[rule_format, of s q "Some ''songs''"] assms[rule_format, of s1 q "Some ''videos''"]
      assms[rule_format, of s2 q None] 1 2 3 by simp_all
  then show ?thesis
    unfolding collect_steps[OF 1 2 3]
    by (cases x1; cases x2; cases x3) (simp_all add: Let_def)
qed

subsection \<open>The passes of \<open>search\<close>\<close>

lemma high_confidence_eq:
  "high_confidence r = (case r of None \<Rightarrow> False | Some b \<Rightarrow> 180 \<le> sv_score b)"
  by (cases r) (simp_all add: high_confidence_def HIGH_CONFIDENCE_def)

lemma search_with_query_Some:
  assumes "search_with_query ratio api q t a d m s = (Some b, s')"
  shows "find_best_match ratio (fst (collect api q m s)) t a d = Some b"
    and "s' = snd (collect api q m s)"
  using assms by (auto simp: search_with_query_def Let_def split: prod.splits if_splits)

text \<open>The three passes, with the result and the state after each named.\<close>

lemma search_passes:
  assumes "ytm_new api s0 = (None, s1)"
    and "search_with_query ratio api (build_search_query t []) t a d m s1 = (r1, s2)"
    and "search_with_query ratio api (build_search_query t a) t a d m s2 = (r2, s3)"
    and "search_with_query ratio api (build_search_query a t) t a d m s3 = (r3, s4)"
  shows "search ratio api t a d m s0 =
           (if high_confidence r1 then (r1, s2)
            else if high_confidence r2 then (r2, s3)
            else (update_best (update_best r1 r2) r3, s4))"
proof -
  have "(case r1 of None \<Rightarrow> None | Some b \<Rightarrow> Some b) = r1" by (cases r1) simp_all
  then show ?thesis using assms by (simp add: search_def Let_def)
qed

lemma search_new_fails: "ytm_new api s0 = (Some e, s1) \<Longrightarrow> search ratio api t a d m s0 = (None, s1)"
  by (simp add: search_def)

lemma update_best_in: "update_best x y = Some b \<Longrightarrow> x = Some b \<or> y = Some b"
  by (auto simp: update_best_def split: option.splits if_splits)

lemma search_Some_pass:
  assumes "search ratio api t a d m s0 = (Some b, s')"
  shows "\<exists>q s. find_best_match ratio (fst (collect api q m s)) t a d = Some b"
proof -
  obtain e s1 where n: "ytm_new api s0 = (e, s1)" by force
  show ?thesis
  proof (cases e)
    case (Some x)
    then show ?thesis using assms n by (simp add: search_def)
  next
    case None
    obtain r1 s2 where 1:
      "search_with_query ratio api (build_search_query t []) t a d m s1 = (r1, s2)" by force
    obtain r2 s3 where 2:
      "search_with_query ratio api (build_search_query t a) t a d m s2 = (r2, s3)" by force
    obtain r3 s4 where 3:
      "search_with_query ratio api (build_search_query a t) t a d m s3 = (r3, s4)" by force
    from assms search_passes[OF n[unfolded None] 1 2 3]
    have "r1 = Some b \<or> r2 = Some b \<or> r3 = Some b"
      by (auto split: if_splits dest!: update_best_in)
    then show ?thesis
      using search_with_query_Some(1)[of ratio api _ t a d m _ b] 1 2 3 by blast
  qed
qed

lemma find_best_match_score:
  assumes "find_best_match ratio videos t a d = Some b"
  shows "100 \<le> sv_score b" and "\<exists>v\<in>set videos. b = make_scored v (score_video ratio v t a d)"
proof -
  from find_best_match_Some[OF assms] obtain A v B where
    v: "videos = A @ v # B" "b = make_scored v (score_video ratio v t a d)"
       "100 \<le> score_video ratio v t a d" by blast
  show "100 \<le> sv_score b" using v by simp
  show "\<exists>v\<in>set videos. b = make_scored v (score_video ratio v t a d)" using v by auto
qed

lemma search_with_query_collect:
  assumes "collect api q m s = (vs, s')"
  shows "search_with_query ratio api q t a d m s = (find_best_match ratio vs t a d, s')"
  using assms by (cases vs) (simp_all add: search_with_query_def find_best_match_def)

lemma search_all_low:
  assumes n: "ytm_new api s0 = (None, s1)"
    and c: "collect api (build_search_query t []) m s1 = (vs1, s2)"
       "collect api (build_search_query t a) m s2 = (vs2, s3)"
       "collect api (build_search_query a t) m s3 = (vs3, s4)"
    and low: "\<forall>v\<in>set (vs1 @ vs2 @ vs3). score_video ratio v t a d < 100"
  shows "search ratio api t a d m s0 = (None, s4)"
proof -
  have "find_best_match ratio vs1 t a d = None" "find_best_match ratio vs2 t a d = None"
    "find_best_match ratio vs3 t a d = None"
    using low by (simp_all add: find_best_match_None_iff)
  then have p: "search_with_query ratio api (build_search_query t []) t a d m s1 = (None, s2)"
    "search_with_query ratio api (build_search_query t a) t a d m s2 = (None, s3)"
    "search_with_query ratio api (build_search_query a t) t a d m s3 = (None, s4)"
    using c by (simp_all add: search_with_query_collect)
  show ?thesis
    using search_passes[OF n p] by (simp add: high_confidence_def update_best_def)
qed

subsection \<open>The order of the collected candidates\<close>

text \<open>The duplicate-skipping loop, one result at a time from the right, and in closed form:
  the results it keeps, by their positions in the response.\<close>

lemma skip_duplicates_loop_snoc:
  "skip_duplicates_loop (rs @ [r]) acc =
     (let all_videos = skip_duplicates_loop rs acc
      in case res_videoId r of
           None \<Rightarrow> all_videos
         | Some vid \<Rightarrow>
             if vid = [] \<or> list_ex (\<lambda>v. v_id v = vid) all_videos then all_videos
             else all_videos @ [make_video_info vid r])"
  by (induction rs arbitrary: acc) (auto simp: Let_def split: option.splits)

lemma skip_duplicates_loop_ids:
  "set (map v_id (skip_duplicates_loop rs acc))
     = set (map v_id acc) \<union> {vid. vid \<noteq> [] \<and> Some vid \<in> set (map res_videoId rs)}"
proof (induction rs rule: rev_induct)
  case Nil
  then show ?case by simp
next
  case (snoc r rs)
  show ?case
  proof (cases "res_videoId r")
    case None
    then show ?thesis using snoc by (auto simp: skip_duplicates_loop_snoc Let_def)
  next
    case (Some vid)
    then show ?thesis using snoc
      by (auto simp: skip_duplicates_loop_snoc Let_def list_ex_iff)
  qed
qed

lemma skip_duplicates_loop_eq:
  "skip_duplicates_loop rs acc =
     acc @ map (\<lambda>i. make_video_info (the (res_videoId (rs ! i))) (rs ! i))
             (filter (\<lambda>i. res_videoId (rs ! i) \<noteq> None \<and> res_videoId (rs ! i) \<noteq> Some []
                       \<and> the (res_videoId (rs ! i)) \<notin> set (map v_id acc)
                       \<and> res_videoId (rs ! i) \<notin> set (map res_videoId (take i rs)))
                [0..<length rs])"
proof (induction rs rule: rev_induct)
  case Nil
  then show ?case by simp
next
  case (snoc r rs)
  let ?keep = "\<lambda>xs i. res_videoId (xs ! i) \<noteq> None \<and> res_videoId (xs ! i) \<noteq> Some []
                       \<and> the (res_videoId (xs ! i)) \<notin> set (map v_id acc)
                       \<and> res_videoId (xs ! i) \<notin> set (map res_videoId (take i xs))"
  let ?mk = "\<lambda>xs i. make_video_info (the (res_videoId (xs ! i))) (xs ! i)"
  have old: "map (?mk (rs @ [r])) (filter (?keep (rs @ [r])) [0..<length rs])
               = map (?mk rs) (filter (?keep rs) [0..<length rs])"
  proof -
    have "filter (?keep (rs @ [r])) [0..<length rs] = filter (?keep rs) [0..<length rs]"
      by (rule filter_cong) (simp_all add: nth_append)
    moreover have "map (?mk (rs @ [r])) (filter (?keep rs) [0..<length rs])
                     = map (?mk rs) (filter (?keep rs) [0..<length rs])"
      by (rule map_cong) (simp_all add: nth_append)
    ultimately show ?thesis by simp
  qed
  have last: "?keep (rs @ [r]) (length rs) \<longleftrightarrow>
                (\<exists>vid. res_videoId r = Some vid \<and> vid \<noteq> []
                   \<and> \<not> list_ex (\<lambda>v. v_id v = vid) (skip_duplicates_loop rs acc))"
  proof -
    have "list_ex (\<lambda>v. v_id v = vid) (skip_duplicates_loop rs acc)
            \<longleftrightarrow> vid \<in> set (map v_id (skip_duplicates_loop rs acc))" for vid
      by (auto simp: list_ex_iff)
    then show ?thesis
      unfolding skip_duplicates_loop_ids by (cases "res_videoId r") auto
  qed
  show ?case
  proof (cases "?keep (rs @ [r]) (length rs)")
    case True
    with last obtain vid where v: "res_videoId r = Some vid" "vid \<noteq> []"
      "\<not> list_ex (\<lambda>v. v_id v = vid) (skip_duplicates_loop rs acc)" by blast
    have "skip_duplicates_loop (rs @ [r]) acc = skip_duplicates_loop rs acc @ [make_video_info vid r]"
      using v by (simp add: skip_duplicates_loop_snoc Let_def)
    also have "\<dots> = acc @ map (?mk rs) (filter (?keep rs) [0..<length rs]) @ [make_video_info vid r]"
      using snoc.IH by simp
    also have "\<dots> = acc @ map (?mk (rs @ [r])) (filter (?keep (rs @ [r])) [0..<length (rs @ [r])])"
      using True v(1) old by simp
    finally show ?thesis .
  next
    case False
    with last have "skip_duplicates_loop (rs @ [r]) acc = skip_duplicates_loop rs acc"
      by (cases "res_videoId r") (auto simp: skip_duplicates_loop_snoc Let_def)
    also have "\<dots> = acc @ map (?mk rs) (filter (?keep rs) [0..<length rs])"
      using snoc.IH by simp
    also have "\<dots> = acc @ map (?mk (rs @ [r])) (filter (?keep (rs @ [r])) [0..<length (rs @ [r])])"
      using False old by simp
    finally show ?thesis .
  qed
qed

lemma collect_in_order:
  assumes r: "ytm_search api s0 q (Some ''songs'') m = (Inr rs1, s1)"
    "ytm_search api s1 q (Some ''videos'') m = (Inr rs2, s2)"
    "ytm_search api s2 q None m = (Inr rs3, s3)"
  shows
   "(let S = map (\<lambda>r. make_video_info (the (res_videoId r)) r)
               (filter (\<lambda>r. res_videoId r \<noteq> None \<and> res_videoId r \<noteq> Some []) rs1);
         V = map (\<lambda>i. make_video_info (the (res_videoId (rs2 ! i))) (rs2 ! i))
               (filter (\<lambda>i. res_videoId (rs2 ! i) \<noteq> None \<and> res_videoId (rs2 ! i) \<noteq> Some []
                         \<and> the (res_videoId (rs2 ! i)) \<notin> set (map v_id S)
                         \<and> res_videoId (rs2 ! i) \<notin> set (map res_videoId (take i rs2)))
                  [0..<length rs2]);
         U = map (\<lambda>i. make_video_info (the (res_videoId (rs3 ! i))) (rs3 ! i))
               (filter (\<lambda>i. res_videoId (rs3 ! i) \<noteq> None \<and> res_videoId (rs3 ! i) \<noteq> Some []
                         \<and> the (res_videoId (rs3 ! i)) \<notin> set (map v_id (S @ V))
                         \<and> res_videoId (rs3 ! i) \<notin> set (map res_videoId (take i rs3)))
                  [0..<length rs3])
     in collect api q m s0 = (S @ V @ U, s3)
        \<and> (\<forall>v\<in>set V. \<exists>r\<in>set rs2. res_videoId r = Some (v_id v) \<and> v = make_video_info (v_id v) r)
        \<and> (\<forall>v\<in>set U. \<exists>r\<in>set rs3. res_videoId r = Some (v_id v) \<and> v = make_video_info (v_id v) r))"
proof -
  have mem: "\<exists>r\<in>set rs. res_videoId r = Some (v_id v) \<and> v = make_video_info (v_id v) r"
    if "v \<in> set (map (\<lambda>i. make_video_info (the (res_videoId (rs ! i))) (rs ! i))
                  (filter (\<lambda>i. res_videoId (rs ! i) \<noteq> None \<and> P i) [0..<length rs]))"
    for v rs P
  proof -
    from that obtain i where i: "i < length rs" "res_videoId (rs ! i) \<noteq> None"
      "v = make_video_info (the (res_videoId (rs ! i))) (rs ! i)" by auto
    then obtain vid where "res_videoId (rs ! i) = Some vid" by auto
    with i have "rs ! i \<in> set rs" "res_videoId (rs ! i) = Some (v_id v)"
      "v = make_video_info (v_id v) (rs ! i)" by simp_all
    then show ?thesis by blast
  qed
  have c: "collect api q m s0
     = (skip_duplicates_loop rs3 (skip_duplicates_loop rs2 (songs_loop rs1 [])), s3)"
    unfolding collect_steps[OF r] by (simp add: Let_def)
  show ?thesis
    unfolding Let_def c
    apply (intro conjI)
    subgoal
      by (simp only: songs_loop_eq[of rs1 "[]"] skip_duplicates_loop_eq[of rs2]
            skip_duplicates_loop_eq[of rs3] append_Nil append_assoc)
    subgoal by (intro ballI mem)
    subgoal by (intro ballI mem)
    done
qed

section \<open>The claims\<close>

text \<open>
  Claim C1. A candidate is returned only with a total score of at least 100. The scorer of
  one pass returns nothing exactly when every candidate of the pass is below 100, so a
  candidate at exactly 100 is accepted and one at 99 is not, whatever the other candidates
  score; what \<open>search\<close> returns has a score of at least 100; and when no candidate of
  any of the three passes reaches 100, \<open>search\<close> returns \<open>None\<close>.
\<close>

theorem acceptance_floor:
  "(find_best_match ratio videos t a d = None
      \<longleftrightarrow> (\<forall>v\<in>set videos. score_video ratio v t a d < 100))
   \<and> (find_best_match ratio videos t a d = Some b \<longrightarrow>
        100 \<le> sv_score b \<and> (\<exists>v\<in>set videos. b = make_scored v (score_video ratio v t a d)))
   \<and> (search ratio api t a d m s0 = (Some b', s') \<longrightarrow> 100 \<le> sv_score b')
   \<and> (ytm_new api s0 = (None, s1) \<longrightarrow>
      collect api (build_search_query t []) m s1 = (vs1, s2) \<longrightarrow>
      collect api (build_search_query t a) m s2 = (vs2, s3) \<longrightarrow>
      collect api (build_search_query a t) m s3 = (vs3, s4) \<longrightarrow>
      (\<forall>v\<in>set (vs1 @ vs2 @ vs3). score_video ratio v t a d < 100) \<longrightarrow>
        search ratio api t a d m s0 = (None, s4))"
proof (intro conjI impI)
  show "find_best_match ratio videos t a d = None
      \<longleftrightarrow> (\<forall>v\<in>set videos. score_video ratio v t a d < 100)"
    by (rule find_best_match_None_iff)
next
  assume "find_best_match ratio videos t a d = Some b"
  then show "100 \<le> sv_score b" "\<exists>v\<in>set videos. b = make_scored v (score_video ratio v t a d)"
    by (rule find_best_match_score)+
next
  assume "search ratio api t a d m s0 = (Some b', s')"
  from search_Some_pass[OF this] show "100 \<le> sv_score b'"
    using find_best_match_score(1) by blast
next
  assume "ytm_new api s0 = (None, s1)"
    "collect api (build_search_query t []) m s1 = (vs1, s2)"
    "collect api (build_search_query t a) m s2 = (vs2, s3)"
    "collect api (build_search_query a t) m s3 = (vs3, s4)"
    "\<forall>v\<in>set (vs1 @ vs2 @ vs3). score_video ratio v t a d < 100"
  then show "search ratio api t a d m s0 = (None, s4)" by (rule search_all_low)
qed

theorem acceptance_floor_witness:
  "fst (collect (scripted [Inr [y99, y100]]) ''Abc'' 10 0)
     = [make_video_info ''y0'' y99, make_video_info ''y1'' y100]
   \<and> score_video no_ratio (make_video_info ''y0'' y99) ''Abc'' ''Zz'' 100 = 99
   \<and> score_video no_ratio (make_video_info ''y1'' y100) ''Abc'' ''Zz'' 100 = 100
   \<and> find_best_match no_ratio [make_video_info ''y0'' y99, make_video_info ''y1'' y100]
        ''Abc'' ''Zz'' 100 = Some (scored ''y1'' ''Abc Audio'' 120 ''Q'' 100)
   \<and> find_best_match no_ratio [make_video_info ''y0'' y99] ''Abc'' ''Zz'' 100 = None
   \<and> search no_ratio (scripted [Inr [y99, y100]]) ''Abc'' ''Zz'' 100 10 0
        = (Some (scored ''y1'' ''Abc Audio'' 120 ''Q'' 100), 9)
   \<and> 100 \<le> sv_score (scored ''y1'' ''Abc Audio'' 120 ''Q'' 100)
   \<and> search no_ratio (scripted [Inr [y99]]) ''Abc'' ''Zz'' 100 10 0 = (None, 9)"
proof -
  let ?v99 = "make_video_info ''y0'' y99" and ?v100 = "make_video_info ''y1'' y100"
  have c: "fst (collect (scripted [Inr [y99, y100]]) ''Abc'' 10 0) = [?v99, ?v100]"
    by code_simp
  have s99: "score_video no_ratio ?v99 ''Abc'' ''Zz'' 100 = 99" by code_simp
  have s100: "score_video no_ratio ?v100 ''Abc'' ''Zz'' 100 = 100" by code_simp
  have f: "find_best_match no_ratio [?v99, ?v100] ''Abc'' ''Zz'' 100
             = Some (scored ''y1'' ''Abc Audio'' 120 ''Q'' 100)"
    by code_simp
  have g: "search no_ratio (scripted [Inr [y99, y100]]) ''Abc'' ''Zz'' 100 10 0
             = (Some (scored ''y1'' ''Abc Audio'' 120 ''Q'' 100), 9)"
    by code_simp
  have n: "ytm_new (scripted [Inr [y99]]) 0 = (None, 0)" by (simp add: scripted_def)
  have c1: "collect (scripted [Inr [y99]]) (build_search_query ''Abc'' []) 10 0 = ([?v99], 3)"
    by code_simp
  have c2: "collect (scripted [Inr [y99]]) (build_search_query ''Abc'' ''Zz'') 10 3 = ([], 6)"
    by code_simp
  have c3: "collect (scripted [Inr [y99]]) (build_search_query ''Zz'' ''Abc'') 10 6 = ([], 9)"
    by code_simp
  have low: "\<forall>v\<in>set ([?v99] @ [] @ []). score_video no_ratio v ''Abc'' ''Zz'' 100 < 100"
    by (simp add: s99)
  from acceptance_floor[where ratio = no_ratio and videos = "[?v99]" and t = "''Abc''"
         and a = "''Zz''" and d = 100, THEN conjunct1] s99
  have none: "find_best_match no_ratio [?v99] ''Abc'' ''Zz'' 100 = None" by simp
  from acceptance_floor[where ratio = no_ratio and videos = "[?v99, ?v100]" and t = "''Abc''"
         and a = "''Zz''" and d = 100 and b = "scored ''y1'' ''Abc Audio'' 120 ''Q'' 100",
         THEN conjunct2, THEN conjunct1] f
  have ge: "100 \<le> sv_score (scored ''y1'' ''Abc Audio'' 120 ''Q'' 100)" by simp
  from acceptance_floor[THEN conjunct2, THEN conjunct2, THEN conjunct2,
         THEN mp, THEN mp, THEN mp, THEN mp, THEN mp, OF n c1 c2 c3 low]
  have s: "search no_ratio (scripted [Inr [y99]]) ''Abc'' ''Zz'' 100 10 0 = (None, 9)" .
  show ?thesis using c s99 s100 f none g ge s by simp
qed

text \<open>
  Claim C2. With the result and the state after each pass named, \<open>search\<close> returns the
  result of pass 1 in the state reached after pass 1 when that result scores at least 180,
  so no request of pass 2 or 3 is made; otherwise the result of pass 2 in the state after
  pass 2 when it scores at least 180; otherwise, after all three passes, the best of passes
  1 and 2, replaced by the result of pass 3 only where that scores strictly more. A result
  of 179 does not stop the search.
\<close>

theorem early_termination:
  "ytm_new api s0 = (None, s1) \<longrightarrow>
   search_with_query ratio api (build_search_query t []) t a d m s1 = (r1, s2) \<longrightarrow>
   search_with_query ratio api (build_search_query t a) t a d m s2 = (r2, s3) \<longrightarrow>
   search_with_query ratio api (build_search_query a t) t a d m s3 = (r3, s4) \<longrightarrow>
     search ratio api t a d m s0 =
       (if (case r1 of None \<Rightarrow> False | Some b \<Rightarrow> 180 \<le> sv_score b) then (r1, s2)
        else if (case r2 of None \<Rightarrow> False | Some b \<Rightarrow> 180 \<le> sv_score b) then (r2, s3)
        else
          (case r3 of
             None \<Rightarrow> update_best r1 r2
           | Some b3 \<Rightarrow>
               (case update_best r1 r2 of
                  None \<Rightarrow> Some b3
                | Some p \<Rightarrow> if sv_score p < sv_score b3 then Some b3 else Some p),
           s4))"
proof (intro impI)
  assume n: "ytm_new api s0 = (None, s1)"
    and p: "search_with_query ratio api (build_search_query t []) t a d m s1 = (r1, s2)"
       "search_with_query ratio api (build_search_query t a) t a d m s2 = (r2, s3)"
       "search_with_query ratio api (build_search_query a t) t a d m s3 = (r3, s4)"
  have u: "update_best x r3 =
          (case r3 of None \<Rightarrow> x
           | Some b3 \<Rightarrow> (case x of None \<Rightarrow> Some b3
                | Some p \<Rightarrow> if sv_score p < sv_score b3 then Some b3 else Some p))" for x
    by (simp add: update_best_def)
  show "search ratio api t a d m s0 =
       (if (case r1 of None \<Rightarrow> False | Some b \<Rightarrow> 180 \<le> sv_score b) then (r1, s2)
        else if (case r2 of None \<Rightarrow> False | Some b \<Rightarrow> 180 \<le> sv_score b) then (r2, s3)
        else
          (case r3 of
             None \<Rightarrow> update_best r1 r2
           | Some b3 \<Rightarrow>
               (case update_best r1 r2 of
                  None \<Rightarrow> Some b3
                | Some p \<Rightarrow> if sv_score p < sv_score b3 then Some b3 else Some p),
           s4))"
    unfolding search_passes[OF n p] u[symmetric] high_confidence_eq by (rule refl)
qed

theorem early_termination_witness:
  "search no_ratio (scripted [Inr [x180]]) ''Abc Official'' ''Zz'' 100 10 0
     = (Some (scored ''x1'' ''Abc Official Audio'' 105 ''Zz'' 180), 3)
   \<and> search no_ratio (scripted [Inr [x179 ''x0''], Inr [], Inr [], Inr [], Inr [x180]])
        ''Abc Official'' ''Zz'' 100 10 0
     = (Some (scored ''x1'' ''Abc Official Audio'' 105 ''Zz'' 180), 6)
   \<and> search no_ratio
        (scripted [Inr [x179 ''x0''], Inr [], Inr [], Inr [], Inr [], Inr [], Inr [x179 ''x3'']])
        ''Abc Official'' ''Zz'' 100 10 0
     = (Some (scored ''x0'' ''Abc Official'' 100 ''Zz Top'' 179), 9)"
proof -
  let ?q1 = "build_search_query ''Abc Official'' []"
  let ?q2 = "build_search_query ''Abc Official'' ''Zz''"
  let ?q3 = "build_search_query ''Zz'' ''Abc Official''"
  let ?A = "scripted [Inr [x180]]"
  let ?B = "scripted [Inr [x179 ''x0''], Inr [], Inr [], Inr [], Inr [x180]]"
  let ?C = "scripted [Inr [x179 ''x0''], Inr [], Inr [], Inr [], Inr [], Inr [], Inr [x179 ''x3'']]"
  let ?hi = "scored ''x1'' ''Abc Official Audio'' 105 ''Zz'' 180"
  let ?lo = "\<lambda>vid. scored vid ''Abc Official'' 100 ''Zz Top'' 179"
  have nA: "ytm_new ?A 0 = (None, 0)" and nB: "ytm_new ?B 0 = (None, 0)"
    and nC: "ytm_new ?C 0 = (None, 0)"
    by (simp_all add: scripted_def)
  have a1: "search_with_query no_ratio ?A ?q1 ''Abc Official'' ''Zz'' 100 10 0 = (Some ?hi, 3)"
    by code_simp
  have a2: "search_with_query no_ratio ?A ?q2 ''Abc Official'' ''Zz'' 100 10 3 = (None, 6)"
    by code_simp
  have a3: "search_with_query no_ratio ?A ?q3 ''Abc Official'' ''Zz'' 100 10 6 = (None, 9)"
    by code_simp
  have b1: "search_with_query no_ratio ?B ?q1 ''Abc Official'' ''Zz'' 100 10 0 = (Some (?lo ''x0''), 3)"
    by code_simp
  have b2: "search_with_query no_ratio ?B ?q2 ''Abc Official'' ''Zz'' 100 10 3 = (Some ?hi, 6)"
    by code_simp
  have b3: "search_with_query no_ratio ?B ?q3 ''Abc Official'' ''Zz'' 100 10 6 = (None, 9)"
    by code_simp
  have c1: "search_with_query no_ratio ?C ?q1 ''Abc Official'' ''Zz'' 100 10 0 = (Some (?lo ''x0''), 3)"
    by code_simp
  have c2: "search_with_query no_ratio ?C ?q2 ''Abc Official'' ''Zz'' 100 10 3 = (None, 6)"
    by code_simp
  have c3: "search_with_query no_ratio ?C ?q3 ''Abc Official'' ''Zz'' 100 10 6 = (Some (?lo ''x3''), 9)"
    by code_simp
  have sc: "sv_score ?hi = 180" "sv_score (?lo ''x0'') = 179" "sv_score (?lo ''x3'') = 179"
    by (simp_all add: scored_def)
  from early_termination[rule_format, OF nA a1 a2 a3]
  have A: "search no_ratio ?A ''Abc Official'' ''Zz'' 100 10 0 = (Some ?hi, 3)"
    by (simp add: sc)
  from early_termination[rule_format, OF nB b1 b2 b3]
  have B: "search no_ratio ?B ''Abc Official'' ''Zz'' 100 10 0 = (Some ?hi, 6)"
    by (simp add: sc)
  from early_termination[rule_format, OF nC c1 c2 c3]
  have C: "search no_ratio ?C ''Abc Official'' ''Zz'' 100 10 0 = (Some (?lo ''x0''), 9)"
    by (simp add: sc update_best_def)
  show ?thesis using A B C by simp
qed

text \<open>
  Claim C3. When the lower-cased track name has words longer than two characters and fewer
  than half of them occur in the lower-cased candidate title, the track word match is
  - 100 and the total is at most 70, below the floor of 100, whatever the other criteria
  add (the sequence-matcher ratio being in \<open>[0, 1]\<close>); with no such word the track word
  match adds nothing. The number of words is taken below \<open>2 ^ 53\<close>, where the float
  quotient of the two counts is below 0.5 exactly when the counts say so.
\<close>

theorem low_coverage_below_floor:
  "((\<forall>x y. 0 \<le> ratio x y \<and> ratio x y \<le> 1) \<longrightarrow>
      track_words (lower track_name) \<noteq> [] \<longrightarrow>
      2 * matched_words (lower track_name) (lower (v_title video))
         < int (length (track_words (lower track_name))) \<longrightarrow>
      length (track_words (lower track_name)) < 2 ^ 53 \<longrightarrow>
        track_match_score (lower track_name) (lower (v_title video)) = - 100
        \<and> score_video ratio video track_name artist_name expected_duration \<le> 70
        \<and> score_video ratio video track_name artist_name expected_duration < 100)
   \<and> (track_words (lower track_name) = [] \<longrightarrow>
        track_match_score (lower track_name) (lower (v_title video)) = 0)"
proof (intro conjI impI)
  assume r: "\<forall>x y. 0 \<le> ratio x y \<and> ratio x y \<le> 1"
    and w: "track_words (lower track_name) \<noteq> []"
    and m: "2 * matched_words (lower track_name) (lower (v_title video))
              < int (length (track_words (lower track_name)))"
    and n: "length (track_words (lower track_name)) < 2 ^ 53"
  show t: "track_match_score (lower track_name) (lower (v_title video)) = - 100"
    using match_percent_less_half[OF m n] w by (simp add: track_match_score_def)
  have "score_video ratio video track_name artist_name expected_duration
          \<le> score_before_penalty ratio video track_name artist_name expected_duration"
    by (simp add: score_video_def keyword_penalty_eq)
  also have "\<dots> \<le> 70"
    unfolding score_before_penalty_sum t
    using small_scores_le(1)[of "lower artist_name" "lower (v_title video)" "lower (v_uploader video)"]
      small_scores_le(2)[of expected_duration "v_duration video"]
      small_scores_le(3)[of "v_view_count video"]
      small_scores_le(4)[of "lower (v_title video)"]
      small_scores_le(5)[of "lower (v_title video)"]
      title_score_range(2)[OF r, of "lower track_name" "lower (v_title video)"]
      artist_score_range(2)[OF r, of "lower artist_name" "lower (v_uploader video)" "lower (v_title video)"]
    by linarith
  finally show le: "score_video ratio video track_name artist_name expected_duration \<le> 70" .
  then show "score_video ratio video track_name artist_name expected_duration < 100" by simp
next
  assume "track_words (lower track_name) = []"
  then show "track_match_score (lower track_name) (lower (v_title video)) = 0"
    by (simp add: track_match_score_def)
qed

theorem low_coverage_below_floor_witness:
  "track_words (lower ''One Two Three'') = [''one'', ''two'', ''three'']
   \<and> matched_words (lower ''One Two Three'') (lower (v_title one_of_three)) = 1
   \<and> track_match_score (lower ''One Two Three'') (lower (v_title one_of_three)) = - 100
   \<and> score_video no_ratio one_of_three ''One Two Three'' ''The Band'' 222 = 28
   \<and> score_video no_ratio one_of_three ''One Two Three'' ''The Band'' 222 < 100
   \<and> track_words (lower ''It Is'') = []
   \<and> track_match_score (lower ''It Is'') (lower (v_title one_of_three)) = 0"
proof -
  have r: "\<forall>x y. 0 \<le> no_ratio x y \<and> no_ratio x y \<le> 1" by (simp add: no_ratio_def)
  have w: "track_words (lower ''One Two Three'') = [''one'', ''two'', ''three'']" by code_simp
  have m: "matched_words (lower ''One Two Three'') (lower (v_title one_of_three)) = 1" by code_simp
  have s: "score_video no_ratio one_of_three ''One Two Three'' ''The Band'' 222 = 28" by code_simp
  have e: "track_words (lower ''It Is'') = []" by code_simp
  have n: "length (track_words (lower ''One Two Three'')) < 2 ^ 53" by (simp add: w)
  have h: "2 * matched_words (lower ''One Two Three'') (lower (v_title one_of_three))
             < int (length (track_words (lower ''One Two Three'')))" by (simp add: w m)
  from low_coverage_below_floor[of no_ratio "''One Two Three''" one_of_three "''The Band''" 222]
    low_coverage_below_floor[of no_ratio "''It Is''" one_of_three "''The Band''" 222]
    r w m s e n h
  show ?thesis by simp
qed

text \<open>
  Claim C4. The collector is to drop every candidate whose id was already seen, within and
  across the three responses. The loops over the \<open>videos\<close> and the unfiltered response do
  so; the loop over the \<open>songs\<close> response has no such test. A \<open>songs\<close> response that
  lists one id twice yields two candidates with that id, while the same two results in the
  \<open>videos\<close> response yield one, and a later result with that id is dropped although its
  title differs.
\<close>

theorem songs_duplicates_kept:
  "map v_id (fst (collect
       (scripted [Inr [full_result ''x1'' ''T'' 100 ''A'', full_result ''x1'' ''T'' 100 ''A''],
                  Inr [], Inr []]) ''q'' 10 0))
     = [''x1'', ''x1'']
   \<and> map v_title (fst (collect
       (scripted [Inr [],
                  Inr [full_result ''x1'' ''T'' 100 ''A'', full_result ''x1'' ''T'' 100 ''A''],
                  Inr [full_result ''x1'' ''T2'' 100 ''A'']]) ''q'' 10 0))
     = [''T'']"
  by code_simp

text \<open>
  Claim C5. Every candidate the collector builds has view count 0, so its view score is
  - 5, none of 15, 10, 5 and 0, and its total is 5 below what it would be in the neutral
  tier of 1000 views; what \<open>search\<close> returns has view count 0.
\<close>

theorem collector_views_unknown:
  "(v \<in> set (fst (collect api query max_results s)) \<longrightarrow>
      v_view_count v = 0
      \<and> view_score (v_view_count v) = - 5
      \<and> view_score (v_view_count v) \<notin> {15, 10, 5, 0}
      \<and> score_video ratio v t a d = score_video ratio (v\<lparr>v_view_count := 1000\<rparr>) t a d - 5)
   \<and> (search ratio api t a d max_results s0 = (Some b, s') \<longrightarrow> sv_view_count b = 0)"
proof (intro conjI impI)
  assume "v \<in> set (fst (collect api query max_results s))"
  then have z: "v_view_count v = 0" using collect_views[of api query max_results s] by simp
  show "v_view_count v = 0" by (rule z)
  show "view_score (v_view_count v) = - 5" by (simp add: z view_score_def)
  show "view_score (v_view_count v) \<notin> {15, 10, 5, 0}" by (simp add: z view_score_def)
  show "score_video ratio v t a d = score_video ratio (v\<lparr>v_view_count := 1000\<rparr>) t a d - 5"
    by (simp add: score_video_def keyword_penalty_eq score_before_penalty_sum z view_score_def)
next
  assume "search ratio api t a d max_results s0 = (Some b, s')"
  from search_Some_pass[OF this] obtain q s where
    "find_best_match ratio (fst (collect api q max_results s)) t a d = Some b" by blast
  from find_best_match_score(2)[OF this] obtain v where
    "v \<in> set (fst (collect api q max_results s))" "b = make_scored v (score_video ratio v t a d)"
    by blast
  then show "sv_view_count b = 0"
    using collect_views[of api q max_results s] by (simp add: make_scored_def)
qed

theorem collector_views_unknown_witness:
  "make_video_info ''y1'' y100 \<in> set (fst (collect (scripted [Inr [y99, y100]]) ''Abc'' 10 0))
   \<and> v_view_count (make_video_info ''y1'' y100) = 0
   \<and> view_score (v_view_count (make_video_info ''y1'' y100)) = - 5
   \<and> score_video no_ratio (make_video_info ''y1'' y100) ''Abc'' ''Zz'' 100 = 100
   \<and> score_video no_ratio ((make_video_info ''y1'' y100)\<lparr>v_view_count := 1000\<rparr>) ''Abc'' ''Zz'' 100
        = 105
   \<and> search no_ratio (scripted [Inr [y99, y100]]) ''Abc'' ''Zz'' 100 10 0
        = (Some (scored ''y1'' ''Abc Audio'' 120 ''Q'' 100), 9)
   \<and> sv_view_count (scored ''y1'' ''Abc Audio'' 120 ''Q'' 100) = 0"
proof -
  let ?v = "make_video_info ''y1'' y100"
  have c: "fst (collect (scripted [Inr [y99, y100]]) ''Abc'' 10 0)
             = [make_video_info ''y0'' y99, ?v]"
    by code_simp
  then have m: "?v \<in> set (fst (collect (scripted [Inr [y99, y100]]) ''Abc'' 10 0))" by simp
  have s: "score_video no_ratio ?v ''Abc'' ''Zz'' 100 = 100" by code_simp
  have g: "search no_ratio (scripted [Inr [y99, y100]]) ''Abc'' ''Zz'' 100 10 0
             = (Some (scored ''y1'' ''Abc Audio'' 120 ''Q'' 100), 9)"
    by code_simp
  from collector_views_unknown[where v = ?v and api = "scripted [Inr [y99, y100]]"
         and query = "''Abc''" and max_results = 10 and s = 0 and ratio = no_ratio
         and t = "''Abc''" and a = "''Zz''" and d = 100 and ?s0.0 = 0
         and b = "scored ''y1'' ''Abc Audio'' 120 ''Q'' 100" and s' = 9] m s g
  show ?thesis by simp
qed

text \<open>
  Claim C6. The total is the score reached before the penalty loop minus 50 for each of the
  thirteen distinct denylisted keywords that occurs in the lower-cased title. So a title
  with exactly two of them scores exactly 50 below a title with exactly one, when the
  score before the penalty loop is the same.
\<close>

theorem keyword_penalty_cumulative:
  "score_video ratio video track_name artist_name expected_duration
     = score_before_penalty ratio video track_name artist_name expected_duration
       - 50 * int (length (filter (\<lambda>keyword. sublist keyword (lower (v_title video))) bad_keywords))
   \<and> distinct bad_keywords
   \<and> (length (filter (\<lambda>keyword. sublist keyword (lower (v_title v1))) bad_keywords) = 1 \<longrightarrow>
      length (filter (\<lambda>keyword. sublist keyword (lower (v_title v2))) bad_keywords) = 2 \<longrightarrow>
      score_before_penalty ratio v2 track_name artist_name expected_duration
        = score_before_penalty ratio v1 track_name artist_name expected_duration \<longrightarrow>
      score_video ratio v2 track_name artist_name expected_duration
        = score_video ratio v1 track_name artist_name expected_duration - 50)"
proof -
  have "distinct bad_keywords" by (simp add: bad_keywords_def)
  then show ?thesis by (simp add: score_video_def keyword_penalty_eq)
qed

theorem keyword_penalty_cumulative_witness:
  "filter (\<lambda>keyword. sublist keyword (lower (v_title remix_video))) bad_keywords = [''remix'']
   \<and> filter (\<lambda>keyword. sublist keyword (lower (v_title karaoke_remix_video))) bad_keywords
        = [''karaoke'', ''remix'']
   \<and> score_before_penalty no_ratio remix_video ''Abc'' ''Zz'' 0 = 75
   \<and> score_before_penalty no_ratio karaoke_remix_video ''Abc'' ''Zz'' 0 = 75
   \<and> score_video no_ratio remix_video ''Abc'' ''Zz'' 0 = 25
   \<and> score_video no_ratio karaoke_remix_video ''Abc'' ''Zz'' 0 = - 25"
proof -
  have f1: "filter (\<lambda>keyword. sublist keyword (lower (v_title remix_video))) bad_keywords = [''remix'']"
    by code_simp
  have f2: "filter (\<lambda>keyword. sublist keyword (lower (v_title karaoke_remix_video))) bad_keywords
              = [''karaoke'', ''remix'']"
    by code_simp
  have b1: "score_before_penalty no_ratio remix_video ''Abc'' ''Zz'' 0 = 75" by code_simp
  have b2: "score_before_penalty no_ratio karaoke_remix_video ''Abc'' ''Zz'' 0 = 75" by code_simp
  from keyword_penalty_cumulative[of no_ratio remix_video "''Abc''" "''Zz''" 0
         remix_video karaoke_remix_video] f1 f2 b1 b2
  show ?thesis by simp
qed

text \<open>
  Claim C7. As stated, the three fraction-scaled deltas would be the rounded products. The
  source truncates them with \<open>int\<close>: a word-set similarity of 1/3 gives a title delta of
  16, not 17; five of six track words give a coverage delta of 41, not 42; a performer
  similarity of 5/9 gives 16, not 17.
\<close>

theorem fraction_scores_rounded_counterexample:
  "title_score no_ratio ''love song'' ''love story'' = 16
   \<and> spec_title_score no_ratio ''love song'' ''love story'' = 17
   \<and> track_match_score ''aaa bbb ccc ddd eee fff'' ''bbb ccc ddd eee fff'' = 41
   \<and> spec_coverage_bonus ''aaa bbb ccc ddd eee fff'' ''bbb ccc ddd eee fff'' = 42
   \<and> artist_score no_ratio ''a b c d e'' ''e d c b a f g h i'' ''xx'' = 16
   \<and> spec_artist_score no_ratio ''a b c d e'' ''e d c b a f g h i'' ''xx'' = 17"
  by code_simp

text \<open>
  Claim C7. (amended) Each of the three deltas is the product truncated toward zero: the
  title delta is the floor of \<open>sim * 50\<close>, the performer delta the floor of \<open>sim * 30\<close>
  with \<open>sim\<close> the greater of the uploader and the title similarity, and, when at least half
  of the track words occur in the title, the coverage delta is the floor of \<open>f * 50\<close>. Each
  is the rounded product or one less (the sequence-matcher ratio being in \<open>[0, 1]\<close>).
\<close>

theorem fraction_scores_truncated:
  "(\<forall>x y. 0 \<le> ratio x y \<and> ratio x y \<le> 1) \<longrightarrow>
     title_score ratio trk t = \<lfloor>fmul (calculate_similarity ratio trk t) 50\<rfloor>
     \<and> artist_score ratio a u t
         = \<lfloor>fmul (max (calculate_similarity ratio a u) (calculate_similarity ratio a t)) 30\<rfloor>
     \<and> (track_words trk \<noteq> [] \<longrightarrow>
        int (length (track_words trk)) \<le> 2 * matched_words trk t \<longrightarrow>
          track_match_score trk t = \<lfloor>fmul (match_percent trk t) 50\<rfloor>
          \<and> track_match_score trk t \<le> spec_coverage_bonus trk t
          \<and> spec_coverage_bonus trk t \<le> track_match_score trk t + 1)
     \<and> title_score ratio trk t \<le> spec_title_score ratio trk t
     \<and> spec_title_score ratio trk t \<le> title_score ratio trk t + 1
     \<and> artist_score ratio a u t \<le> spec_artist_score ratio a u t
     \<and> spec_artist_score ratio a u t \<le> artist_score ratio a u t + 1"
proof (intro impI)
  assume r: "\<forall>x y. 0 \<le> ratio x y \<and> ratio x y \<le> 1"
  have ts: "0 \<le> fmul (calculate_similarity ratio trk t) 50"
    using calculate_similarity_range(1)[OF r, of trk t] by (simp add: fmul_def fl_nonneg)
  have as: "0 \<le> fmul (artist_similarity ratio a u t) 30"
    using artist_similarity_range(1)[OF r, of a u t] by (simp add: fmul_def fl_nonneg)
  have 1: "title_score ratio trk t = \<lfloor>fmul (calculate_similarity ratio trk t) 50\<rfloor>"
    using ts by (simp add: title_score_def Let_def py_int_floor)
  have 2: "artist_score ratio a u t
         = \<lfloor>fmul (max (calculate_similarity ratio a u) (calculate_similarity ratio a t)) 30\<rfloor>"
    using as by (simp add: artist_score_def py_int_floor) (simp add: artist_similarity_def Let_def)
  have 3: "track_match_score trk t = \<lfloor>fmul (match_percent trk t) 50\<rfloor>"
    if w: "track_words trk \<noteq> []" and h: "int (length (track_words trk)) \<le> 2 * matched_words trk t"
  proof -
    have mp: "1 / 2 \<le> match_percent trk t" by (rule match_percent_ge_half[OF h w])
    then have "0 \<le> fmul (match_percent trk t) 50" by (simp add: fmul_def fl_nonneg)
    then show ?thesis using w mp by (simp add: track_match_score_def py_int_floor)
  qed
  show "title_score ratio trk t = \<lfloor>fmul (calculate_similarity ratio trk t) 50\<rfloor>
     \<and> artist_score ratio a u t
         = \<lfloor>fmul (max (calculate_similarity ratio a u) (calculate_similarity ratio a t)) 30\<rfloor>
     \<and> (track_words trk \<noteq> [] \<longrightarrow>
        int (length (track_words trk)) \<le> 2 * matched_words trk t \<longrightarrow>
          track_match_score trk t = \<lfloor>fmul (match_percent trk t) 50\<rfloor>
          \<and> track_match_score trk t \<le> spec_coverage_bonus trk t
          \<and> spec_coverage_bonus trk t \<le> track_match_score trk t + 1)
     \<and> title_score ratio trk t \<le> spec_title_score ratio trk t
     \<and> spec_title_score ratio trk t \<le> title_score ratio trk t + 1
     \<and> artist_score ratio a u t \<le> spec_artist_score ratio a u t
     \<and> spec_artist_score ratio a u t \<le> artist_score ratio a u t + 1"
    using 1 2 3
    by (auto simp: spec_title_score_def spec_artist_score_def spec_coverage_bonus_def py_round_def
          floor_le_rne rne_le_floor)
qed

theorem fraction_scores_truncated_witness:
  "(\<forall>x y. 0 \<le> no_ratio x y \<and> no_ratio x y \<le> 1)
   \<and> track_words ''aaa bbb ccc ddd eee fff'' \<noteq> []
   \<and> int (length (track_words ''aaa bbb ccc ddd eee fff''))
        \<le> 2 * matched_words ''aaa bbb ccc ddd eee fff'' ''bbb ccc ddd eee fff''
   \<and> track_match_score ''aaa bbb ccc ddd eee fff'' ''bbb ccc ddd eee fff''
       = \<lfloor>fmul (match_percent ''aaa bbb ccc ddd eee fff'' ''bbb ccc ddd eee fff'') 50\<rfloor>
   \<and> title_score no_ratio ''love song'' ''love story''
       = \<lfloor>fmul (calculate_similarity no_ratio ''love song'' ''love story'') 50\<rfloor>
   \<and> title_score no_ratio ''love song'' ''love story'' = 16
   \<and> spec_title_score no_ratio ''love song'' ''love story'' \<le> 17"
proof -
  have r: "\<forall>x y. 0 \<le> no_ratio x y \<and> no_ratio x y \<le> 1" by (simp add: no_ratio_def)
  have w: "track_words ''aaa bbb ccc ddd eee fff'' \<noteq> []" by code_simp
  have m: "int (length (track_words ''aaa bbb ccc ddd eee fff''))
             \<le> 2 * matched_words ''aaa bbb ccc ddd eee fff'' ''bbb ccc ddd eee fff''"
    by code_simp
  have v: "title_score no_ratio ''love song'' ''love story'' = 16" by code_simp
  from fraction_scores_truncated[of no_ratio "''love song''" "''love story''" "''aa''" "''bb''"]
    fraction_scores_truncated[of no_ratio "''aaa bbb ccc ddd eee fff''" "''bbb ccc ddd eee fff''"
       "''aa''" "''bb''"] r w m v
  show ?thesis by simp
qed

text \<open>
  Claim C8. With a sequence-matcher ratio in \<open>[0, 1]\<close>, the similarity of two strings is
  in \<open>[0, 1]\<close> and is fixed by the first rule that applies: 1 for equal strings; the double
  0.8 when one contains the other; the double quotient of the sizes of the intersection
  and the union of the two word sets when both are non-empty, within \<open>2 ^ - 53\<close> of the
  exact Jaccard quotient; otherwise the sequence-matcher ratio of the lower-cased strings.
\<close>

theorem similarity_rules:
  "(\<forall>x y. 0 \<le> ratio x y \<and> ratio x y \<le> 1) \<longrightarrow>
     0 \<le> calculate_similarity ratio a b \<and> calculate_similarity ratio a b \<le> 1
     \<and> (a = b \<longrightarrow> calculate_similarity ratio a b = 1)
     \<and> (a \<noteq> b \<longrightarrow> sublist a b \<or> sublist b a \<longrightarrow>
          calculate_similarity ratio a b = fl (8 / 10)
          \<and> \<bar>calculate_similarity ratio a b - 8 / 10\<bar> \<le> 1 / 2 ^ 53)
     \<and> (a \<noteq> b \<longrightarrow> \<not> sublist a b \<longrightarrow> \<not> sublist b a \<longrightarrow>
          set (py_split a) \<noteq> {} \<longrightarrow> set (py_split b) \<noteq> {} \<longrightarrow>
          calculate_similarity ratio a b
            = truediv (int (card (set (py_split a) \<inter> set (py_split b))))
                      (int (card (set (py_split a) \<union> set (py_split b))))
          \<and> \<bar>calculate_similarity ratio a b
               - of_nat (card (set (py_split a) \<inter> set (py_split b)))
                 / of_nat (card (set (py_split a) \<union> set (py_split b)))\<bar> \<le> 1 / 2 ^ 53)
     \<and> (a \<noteq> b \<longrightarrow> \<not> sublist a b \<longrightarrow> \<not> sublist b a \<longrightarrow>
          set (py_split a) = {} \<or> set (py_split b) = {} \<longrightarrow>
          calculate_similarity ratio a b = ratio (lower a) (lower b))"
proof (intro impI conjI)
  assume r: "\<forall>x y. 0 \<le> ratio x y \<and> ratio x y \<le> 1"
  show "0 \<le> calculate_similarity ratio a b" "calculate_similarity ratio a b \<le> 1"
    by (rule calculate_similarity_range[OF r])+
next
  assume "a = b"
  then show "calculate_similarity ratio a b = 1" by (simp add: calculate_similarity_def)
next
  assume h: "a \<noteq> b" "sublist a b \<or> sublist b a"
  then show e: "calculate_similarity ratio a b = fl (8 / 10)"
    by (simp add: calculate_similarity_def)
  have "\<bar>fl (8 / 10) - 8 / 10\<bar> \<le> (8 / 10) / 2 ^ 53" by (rule fl_error) simp
  also have "\<dots> \<le> 1 / 2 ^ 53" by simp
  finally show "\<bar>calculate_similarity ratio a b - 8 / 10\<bar> \<le> 1 / 2 ^ 53" unfolding e .
next
  let ?i = "card (set (py_split a) \<inter> set (py_split b))"
  let ?u = "card (set (py_split a) \<union> set (py_split b))"
  assume h: "a \<noteq> b" "\<not> sublist a b" "\<not> sublist b a" "set (py_split a) \<noteq> {}" "set (py_split b) \<noteq> {}"
  have u: "0 < ?u" using h(4) by (simp add: card_gt_0_iff)
  show e: "calculate_similarity ratio a b = truediv (int ?i) (int ?u)"
    using h u by (simp add: calculate_similarity_def Let_def)
  have iu: "?i \<le> ?u" by (intro card_mono) auto
  show "\<bar>calculate_similarity ratio a b - of_nat ?i / of_nat ?u\<bar> \<le> 1 / 2 ^ 53"
  proof (cases "?i = 0")
    case True
    then show ?thesis unfolding e by (simp add: truediv_def fl_def)
  next
    case False
    define q :: rat where "q = of_nat ?i / of_nat ?u"
    have "0 < ?i" using False by linarith
    then have q: "0 < q" using u unfolding q_def by (intro divide_pos_pos) simp_all
    have q1: "q \<le> 1" using iu u by (simp add: q_def pos_divide_le_eq)
    have "\<bar>fl q - q\<bar> \<le> q / 2 ^ 53" by (rule fl_error[OF q])
    also have "\<dots> \<le> 1 / 2 ^ 53" using q1 by (simp add: divide_right_mono)
    finally show ?thesis unfolding e by (simp add: truediv_def q_def)
  qed
next
  assume "a \<noteq> b" "\<not> sublist a b" "\<not> sublist b a" "set (py_split a) = {} \<or> set (py_split b) = {}"
  then show "calculate_similarity ratio a b = ratio (lower a) (lower b)"
    by (auto simp: calculate_similarity_def Let_def)
qed

theorem similarity_rules_witness:
  "(\<forall>x y. 0 \<le> no_ratio x y \<and> no_ratio x y \<le> 1)
   \<and> calculate_similarity no_ratio ''abc'' ''abc'' = 1
   \<and> ''abc'' \<noteq> ''abc d'' \<and> sublist ''abc'' ''abc d''
   \<and> calculate_similarity no_ratio ''abc'' ''abc d'' = fl (8 / 10)
   \<and> fl (8 / 10) = 3602879701896397 / 4503599627370496
   \<and> ''love song'' \<noteq> ''love story''
   \<and> \<not> sublist ''love song'' ''love story'' \<and> \<not> sublist ''love story'' ''love song''
   \<and> set (py_split ''love song'') \<noteq> {} \<and> set (py_split ''love story'') \<noteq> {}
   \<and> calculate_similarity no_ratio ''love song'' ''love story'' = truediv 1 3
   \<and> [CHR 0x09] \<noteq> '' '' \<and> \<not> sublist [CHR 0x09] '' '' \<and> \<not> sublist '' '' [CHR 0x09]
   \<and> set (py_split [CHR 0x09]) = {}
   \<and> calculate_similarity no_ratio [CHR 0x09] '' '' = no_ratio (lower [CHR 0x09]) (lower '' '')
   \<and> 0 \<le> calculate_similarity no_ratio ''love song'' ''love story''
   \<and> calculate_similarity no_ratio ''love song'' ''love story'' \<le> 1"
proof -
  have r: "\<forall>x y. 0 \<le> no_ratio x y \<and> no_ratio x y \<le> 1" by (simp add: no_ratio_def)
  have e: "''abc'' \<noteq> ''abc d''" "sublist ''abc'' ''abc d''" by code_simp+
  have f: "fl (8 / 10) = 3602879701896397 / 4503599627370496" by code_simp
  have j: "''love song'' \<noteq> ''love story''" "\<not> sublist ''love song'' ''love story''"
    "\<not> sublist ''love story'' ''love song''" "set (py_split ''love song'') \<noteq> {}"
    "set (py_split ''love story'') \<noteq> {}"
    by code_simp+
  have c: "int (card (set (py_split ''love song'') \<inter> set (py_split ''love story''))) = 1"
    "int (card (set (py_split ''love song'') \<union> set (py_split ''love story''))) = 3"
    by code_simp+
  have w: "[CHR 0x09] \<noteq> '' ''" "\<not> sublist [CHR 0x09] '' ''" "\<not> sublist '' '' [CHR 0x09]"
    "set (py_split [CHR 0x09]) = {}"
    by code_simp+
  from similarity_rules[of no_ratio "''abc''" "''abc''"]
    similarity_rules[of no_ratio "''abc''" "''abc d''"]
    similarity_rules[of no_ratio "''love song''" "''love story''"]
    similarity_rules[of no_ratio "[CHR 0x09]" "'' ''"] r e f j c w
  show ?thesis by simp
qed

text \<open>
  Claim C9. \<open>search\<close> returns \<open>None\<close>, as a value, when the client cannot be constructed,
  when every request fails or returns an empty response, and when no candidate of the three
  passes reaches 100. A request that raises contributes what an empty response contributes:
  replacing every failure of the client by an empty response changes neither the candidates
  of a pass nor the result and final state of \<open>search\<close>, so the other requests and passes go
  on as they would.
\<close>

theorem no_match_is_none:
  "search ratio (recovered api) t a d m s0 = search ratio api t a d m s0
   \<and> collect (recovered api) q m s0 = collect api q m s0
   \<and> (ytm_new api s0 = (Some e, s1) \<longrightarrow> search ratio api t a d m s0 = (None, s1))
   \<and> ((\<forall>s q f. case fst (ytm_search api s q f m) of Inl e \<Rightarrow> True | Inr rs \<Rightarrow> rs = []) \<longrightarrow>
        fst (search ratio api t a d m s0) = None)
   \<and> (ytm_new api s0 = (None, s1) \<longrightarrow>
      collect api (build_search_query t []) m s1 = (vs1, s2) \<longrightarrow>
      collect api (build_search_query t a) m s2 = (vs2, s3) \<longrightarrow>
      collect api (build_search_query a t) m s3 = (vs3, s4) \<longrightarrow>
      (\<forall>v\<in>set (vs1 @ vs2 @ vs3). score_video ratio v t a d < 100) \<longrightarrow>
        search ratio api t a d m s0 = (None, s4))"
proof (intro conjI impI)
  show "search ratio (recovered api) t a d m s0 = search ratio api t a d m s0"
    by (rule search_recovered)
  show "collect (recovered api) q m s0 = collect api q m s0" by (rule collect_recovered)
next
  assume "ytm_new api s0 = (Some e, s1)"
  then show "search ratio api t a d m s0 = (None, s1)" by (rule search_new_fails)
next
  assume "ytm_new api s0 = (None, s1)"
    "collect api (build_search_query t []) m s1 = (vs1, s2)"
    "collect api (build_search_query t a) m s2 = (vs2, s3)"
    "collect api (build_search_query a t) m s3 = (vs3, s4)"
    "\<forall>v\<in>set (vs1 @ vs2 @ vs3). score_video ratio v t a d < 100"
  then show "search ratio api t a d m s0 = (None, s4)" by (rule search_all_low)
next
  assume "\<forall>s q f. case fst (ytm_search api s q f m) of Inl e \<Rightarrow> True | Inr rs \<Rightarrow> rs = []"
  then have e: "fst (collect api q m s) = []" for q s by (rule collect_empty)
  show "fst (search ratio api t a d m s0) = None"
  proof (rule ccontr)
    assume "fst (search ratio api t a d m s0) \<noteq> None"
    then obtain b s' where "search ratio api t a d m s0 = (Some b, s')"
      by (cases "search ratio api t a d m s0") auto
    from search_Some_pass[OF this] obtain q s where
      "find_best_match ratio (fst (collect api q m s)) t a d = Some b" by blast
    then show False using find_best_match_None_iff[of ratio "fst (collect api q m s)" t a d]
      by (simp add: e)
  qed
qed

theorem no_match_is_none_witness:
  "collect (scripted [Inl ''timeout'', Inr [y100]]) ''Abc'' 10 0 = ([make_video_info ''y1'' y100], 3)
   \<and> collect (recovered (scripted [Inl ''timeout'', Inr [y100]])) ''Abc'' 10 0
        = ([make_video_info ''y1'' y100], 3)
   \<and> search no_ratio (scripted [Inl ''timeout'', Inr [y100]]) ''Abc'' ''Zz'' 100 10 0
        = (Some (scored ''y1'' ''Abc Audio'' 120 ''Q'' 100), 9)
   \<and> search no_ratio (recovered (scripted [Inl ''timeout'', Inr [y100]])) ''Abc'' ''Zz'' 100 10 0
        = (Some (scored ''y1'' ''Abc Audio'' 120 ''Q'' 100), 9)
   \<and> fst (search no_ratio (scripted []) ''Abc'' ''Zz'' 100 10 0) = None
   \<and> search no_ratio (scripted [Inr [y99], Inl ''timeout'']) ''Abc'' ''Zz'' 100 10 0 = (None, 9)
   \<and> search no_ratio ((scripted []) \<lparr> ytm_new := (\<lambda>n. (Some ''offline'', n)) \<rparr>)
        ''Abc'' ''Zz'' 100 10 0 = (None, 0)"
proof -
  let ?A = "scripted [Inl ''timeout'', Inr [y100]]"
  let ?B = "scripted [Inr [y99], Inl ''timeout'']"
  let ?D = "(scripted []) \<lparr> ytm_new := (\<lambda>n. (Some ''offline'', n)) \<rparr>"
  let ?v99 = "make_video_info ''y0'' y99"
  have c: "collect ?A ''Abc'' 10 0 = ([make_video_info ''y1'' y100], 3)" by code_simp
  have g: "search no_ratio ?A ''Abc'' ''Zz'' 100 10 0
             = (Some (scored ''y1'' ''Abc Audio'' 120 ''Q'' 100), 9)"
    by code_simp
  have e: "\<forall>s q f. case fst (ytm_search (scripted []) s q f 10) of
             Inl e \<Rightarrow> True | Inr rs \<Rightarrow> rs = []"
    by (simp add: scripted_def)
  have n: "ytm_new ?B 0 = (None, 0)" by (simp add: scripted_def)
  have c1: "collect ?B (build_search_query ''Abc'' []) 10 0 = ([?v99], 3)" by code_simp
  have c2: "collect ?B (build_search_query ''Abc'' ''Zz'') 10 3 = ([], 6)" by code_simp
  have c3: "collect ?B (build_search_query ''Zz'' ''Abc'') 10 6 = ([], 9)" by code_simp
  have s99: "score_video no_ratio ?v99 ''Abc'' ''Zz'' 100 = 99" by code_simp
  have low: "\<forall>v\<in>set ([?v99] @ [] @ []). score_video no_ratio v ''Abc'' ''Zz'' 100 < 100"
    by (simp add: s99)
  have d: "ytm_new ?D 0 = (Some ''offline'', 0)" by simp
  note t = no_match_is_none[where ratio = no_ratio and t = "''Abc''" and a = "''Zz''" and d = 100
             and m = 10 and ?s0.0 = 0]
  from t[where api = ?A and q = "''Abc''", THEN conjunct1] g
  have g': "search no_ratio (recovered ?A) ''Abc'' ''Zz'' 100 10 0
              = (Some (scored ''y1'' ''Abc Audio'' 120 ''Q'' 100), 9)" by simp
  from t[where api = ?A and q = "''Abc''", THEN conjunct2, THEN conjunct1] c
  have c': "collect (recovered ?A) ''Abc'' 10 0 = ([make_video_info ''y1'' y100], 3)" by simp
  from t[where api = ?D, THEN conjunct2, THEN conjunct2, THEN conjunct1, THEN mp, OF d]
  have off: "search no_ratio ?D ''Abc'' ''Zz'' 100 10 0 = (None, 0)" .
  from t[where api = "scripted []", THEN conjunct2, THEN conjunct2, THEN conjunct2,
         THEN conjunct1, THEN mp, OF e]
  have emp: "fst (search no_ratio (scripted []) ''Abc'' ''Zz'' 100 10 0) = None" .
  from t[where api = ?B, THEN conjunct2, THEN conjunct2, THEN conjunct2, THEN conjunct2,
         THEN mp, THEN mp, THEN mp, THEN mp, THEN mp, OF n c1 c2 c3 low]
  have lowr: "search no_ratio ?B ''Abc'' ''Zz'' 100 10 0 = (None, 9)" .
  show ?thesis using c c' g g' emp lowr off by simp
qed

text \<open>
  Claim C10. Within one pass the candidate returned is the first of those with the greatest
  score: every candidate before it in the list scores strictly less, every one after it at
  most as much. The list is in the order of encounter: the results of the \<open>songs\<close>
  response that have a video id, in the order of the response; then, in the order of the
  \<open>videos\<close> response, its results with a video id that is neither among the candidates
  so far nor carried by an earlier result of that response; then those of the unfiltered
  response, chosen and ordered the same way. Across the passes, when none stops the search,
  the result of a later pass is returned only if it scores strictly more than the results
  of the earlier passes.
\<close>

theorem first_seen_wins:
  "(find_best_match ratio videos t a d = Some b \<longrightarrow>
      (\<exists>A v B. videos = A @ v # B
         \<and> b = make_scored v (score_video ratio v t a d)
         \<and> (\<forall>u\<in>set A. score_video ratio u t a d < score_video ratio v t a d)
         \<and> (\<forall>u\<in>set B. score_video ratio u t a d \<le> score_video ratio v t a d)))
   \<and> (ytm_search api s0 q (Some ''songs'') m = (Inr rs1, s1) \<longrightarrow>
      ytm_search api s1 q (Some ''videos'') m = (Inr rs2, s2) \<longrightarrow>
      ytm_search api s2 q None m = (Inr rs3, s3) \<longrightarrow>
      (let S = map (\<lambda>r. make_video_info (the (res_videoId r)) r)
                 (filter (\<lambda>r. res_videoId r \<noteq> None \<and> res_videoId r \<noteq> Some []) rs1);
           V = map (\<lambda>i. make_video_info (the (res_videoId (rs2 ! i))) (rs2 ! i))
                 (filter (\<lambda>i. res_videoId (rs2 ! i) \<noteq> None \<and> res_videoId (rs2 ! i) \<noteq> Some []
                           \<and> the (res_videoId (rs2 ! i)) \<notin> set (map v_id S)
                           \<and> res_videoId (rs2 ! i) \<notin> set (map res_videoId (take i rs2)))
                    [0..<length rs2]);
           U = map (\<lambda>i. make_video_info (the (res_videoId (rs3 ! i))) (rs3 ! i))
                 (filter (\<lambda>i. res_videoId (rs3 ! i) \<noteq> None \<and> res_videoId (rs3 ! i) \<noteq> Some []
                           \<and> the (res_videoId (rs3 ! i)) \<notin> set (map v_id (S @ V))
                           \<and> res_videoId (rs3 ! i) \<notin> set (map res_videoId (take i rs3)))
                    [0..<length rs3])
       in collect api q m s0 = (S @ V @ U, s3)
          \<and> (\<forall>v\<in>set V. \<exists>r\<in>set rs2. res_videoId r = Some (v_id v) \<and> v = make_video_info (v_id v) r)
          \<and> (\<forall>v\<in>set U. \<exists>r\<in>set rs3. res_videoId r = Some (v_id v) \<and> v = make_video_info (v_id v) r)))
   \<and> (ytm_new api s0 = (None, s1) \<longrightarrow>
      search_with_query ratio api (build_search_query t []) t a d m s1 = (r1, s2) \<longrightarrow>
      search_with_query ratio api (build_search_query t a) t a d m s2 = (r2, s3) \<longrightarrow>
      search_with_query ratio api (build_search_query a t) t a d m s3 = (r3, s4) \<longrightarrow>
      \<not> high_confidence r1 \<longrightarrow> \<not> high_confidence r2 \<longrightarrow>
      search ratio api t a d m s0 = (Some w, s') \<longrightarrow>
        (r1 = Some w
           \<and> (case r2 of None \<Rightarrow> True | Some c \<Rightarrow> sv_score c \<le> sv_score w)
           \<and> (case r3 of None \<Rightarrow> True | Some c \<Rightarrow> sv_score c \<le> sv_score w))
        \<or> (r2 = Some w
           \<and> (case r1 of None \<Rightarrow> True | Some c \<Rightarrow> sv_score c < sv_score w)
           \<and> (case r3 of None \<Rightarrow> True | Some c \<Rightarrow> sv_score c \<le> sv_score w))
        \<or> (r3 = Some w
           \<and> (case r1 of None \<Rightarrow> True | Some c \<Rightarrow> sv_score c < sv_score w)
           \<and> (case r2 of None \<Rightarrow> True | Some c \<Rightarrow> sv_score c < sv_score w)))"
proof (intro conjI impI)
  assume "find_best_match ratio videos t a d = Some b"
  from find_best_match_Some[OF this]
  show "\<exists>A v B. videos = A @ v # B
         \<and> b = make_scored v (score_video ratio v t a d)
         \<and> (\<forall>u\<in>set A. score_video ratio u t a d < score_video ratio v t a d)
         \<and> (\<forall>u\<in>set B. score_video ratio u t a d \<le> score_video ratio v t a d)"
    by blast
next
  assume "ytm_search api s0 q (Some ''songs'') m = (Inr rs1, s1)"
    "ytm_search api s1 q (Some ''videos'') m = (Inr rs2, s2)"
    "ytm_search api s2 q None m = (Inr rs3, s3)"
  then show "let S = map (\<lambda>r. make_video_info (the (res_videoId r)) r)
               (filter (\<lambda>r. res_videoId r \<noteq> None \<and> res_videoId r \<noteq> Some []) rs1);
         V = map (\<lambda>i. make_video_info (the (res_videoId (rs2 ! i))) (rs2 ! i))
               (filter (\<lambda>i. res_videoId (rs2 ! i) \<noteq> None \<and> res_videoId (rs2 ! i) \<noteq> Some []
                         \<and> the (res_videoId (rs2 ! i)) \<notin> set (map v_id S)
                         \<and> res_videoId (rs2 ! i) \<notin> set (map res_videoId (take i rs2)))
                  [0..<length rs2]);
         U = map (\<lambda>i. make_video_info (the (res_videoId (rs3 ! i))) (rs3 ! i))
               (filter (\<lambda>i. res_videoId (rs3 ! i) \<noteq> None \<and> res_videoId (rs3 ! i) \<noteq> Some []
                         \<and> the (res_videoId (rs3 ! i)) \<notin> set (map v_id (S @ V))
                         \<and> res_videoId (rs3 ! i) \<notin> set (map res_videoId (take i rs3)))
                  [0..<length rs3])
     in collect api q m s0 = (S @ V @ U, s3)
        \<and> (\<forall>v\<in>set V. \<exists>r\<in>set rs2. res_videoId r = Some (v_id v) \<and> v = make_video_info (v_id v) r)
        \<and> (\<forall>v\<in>set U. \<exists>r\<in>set rs3. res_videoId r = Some (v_id v) \<and> v = make_video_info (v_id v) r)"
    by (rule collect_in_order)
next
  assume n: "ytm_new api s0 = (None, s1)"
    and p: "search_with_query ratio api (build_search_query t []) t a d m s1 = (r1, s2)"
       "search_with_query ratio api (build_search_query t a) t a d m s2 = (r2, s3)"
       "search_with_query ratio api (build_search_query a t) t a d m s3 = (r3, s4)"
    and h: "\<not> high_confidence r1" "\<not> high_confidence r2"
    and w: "search ratio api t a d m s0 = (Some w, s')"
  have "update_best (update_best r1 r2) r3 = Some w"
    using search_passes[OF n p] h w by simp
  then show "(r1 = Some w
           \<and> (case r2 of None \<Rightarrow> True | Some c \<Rightarrow> sv_score c \<le> sv_score w)
           \<and> (case r3 of None \<Rightarrow> True | Some c \<Rightarrow> sv_score c \<le> sv_score w))
        \<or> (r2 = Some w
           \<and> (case r1 of None \<Rightarrow> True | Some c \<Rightarrow> sv_score c < sv_score w)
           \<and> (case r3 of None \<Rightarrow> True | Some c \<Rightarrow> sv_score c \<le> sv_score w))
        \<or> (r3 = Some w
           \<and> (case r1 of None \<Rightarrow> True | Some c \<Rightarrow> sv_score c < sv_score w)
           \<and> (case r2 of None \<Rightarrow> True | Some c \<Rightarrow> sv_score c < sv_score w))"
    by (cases r1; cases r2; cases r3) (auto simp: update_best_def split: if_splits)
qed

theorem first_seen_wins_witness:
  "collect (scripted [Inr [], Inr [x179 ''x2'', x179 ''x5''], Inr [x179 ''x5'', x179 ''x7'']])
       ''Abc Official'' 10 0
     = ([make_video_info ''x2'' (x179 ''x2''), make_video_info ''x5'' (x179 ''x5''),
         make_video_info ''x7'' (x179 ''x7'')], 3)
   \<and> score_video no_ratio (make_video_info ''x2'' (x179 ''x2'')) ''Abc Official'' ''Zz'' 100 = 179
   \<and> score_video no_ratio (make_video_info ''x5'' (x179 ''x5'')) ''Abc Official'' ''Zz'' 100 = 179
   \<and> score_video no_ratio (make_video_info ''x7'' (x179 ''x7'')) ''Abc Official'' ''Zz'' 100 = 179
   \<and> find_best_match no_ratio
        [make_video_info ''x2'' (x179 ''x2''), make_video_info ''x5'' (x179 ''x5''),
         make_video_info ''x7'' (x179 ''x7'')] ''Abc Official'' ''Zz'' 100
     = Some (scored ''x2'' ''Abc Official'' 100 ''Zz Top'' 179)
   \<and> search no_ratio
        (scripted [Inr [], Inr [x179 ''x2'', x179 ''x5''], Inr [x179 ''x5'', x179 ''x7''],
                   Inr [x179 ''x3'', x179 ''x4'']])
        ''Abc Official'' ''Zz'' 100 10 0
     = (Some (scored ''x2'' ''Abc Official'' 100 ''Zz Top'' 179), 9)"
proof -
  let ?q1 = "build_search_query ''Abc Official'' []"
  let ?q2 = "build_search_query ''Abc Official'' ''Zz''"
  let ?q3 = "build_search_query ''Zz'' ''Abc Official''"
  let ?P = "scripted [Inr [], Inr [x179 ''x2'', x179 ''x5''], Inr [x179 ''x5'', x179 ''x7'']]"
  let ?S = "scripted [Inr [], Inr [x179 ''x2'', x179 ''x5''], Inr [x179 ''x5'', x179 ''x7''],
                      Inr [x179 ''x3'', x179 ''x4'']]"
  let ?lo = "\<lambda>vid. scored vid ''Abc Official'' 100 ''Zz Top'' 179"
  let ?v2 = "make_video_info ''x2'' (x179 ''x2'')" and ?v5 = "make_video_info ''x5'' (x179 ''x5'')"
    and ?v7 = "make_video_info ''x7'' (x179 ''x7'')"
  have r1: "ytm_search ?P 0 ''Abc Official'' (Some ''songs'') 10 = (Inr [], 1)"
    and r2: "ytm_search ?P 1 ''Abc Official'' (Some ''videos'') 10
               = (Inr [x179 ''x2'', x179 ''x5''], 2)"
    and r3: "ytm_search ?P 2 ''Abc Official'' None 10 = (Inr [x179 ''x5'', x179 ''x7''], 3)"
    by (simp_all add: scripted_def)
  note ordered = first_seen_wins[THEN conjunct2, THEN conjunct1, THEN mp, THEN mp, THEN mp,
                   OF r1 r2 r3, unfolded Let_def, THEN conjunct1]
  have c: "collect ?P ''Abc Official'' 10 0 = ([?v2, ?v5, ?v7], 3)"
    by (rule trans[OF ordered]) code_simp
  have s2: "score_video no_ratio ?v2 ''Abc Official'' ''Zz'' 100 = 179" by code_simp
  have s5: "score_video no_ratio ?v5 ''Abc Official'' ''Zz'' 100 = 179" by code_simp
  have s7: "score_video no_ratio ?v7 ''Abc Official'' ''Zz'' 100 = 179" by code_simp
  have f: "find_best_match no_ratio [?v2, ?v5, ?v7] ''Abc Official'' ''Zz'' 100 = Some (?lo ''x2'')"
    by code_simp
  have n: "ytm_new ?S 0 = (None, 0)" by (simp add: scripted_def)
  have p1: "search_with_query no_ratio ?S ?q1 ''Abc Official'' ''Zz'' 100 10 0 = (Some (?lo ''x2''), 3)"
    by code_simp
  have p2: "search_with_query no_ratio ?S ?q2 ''Abc Official'' ''Zz'' 100 10 3 = (Some (?lo ''x3''), 6)"
    by code_simp
  have p3: "search_with_query no_ratio ?S ?q3 ''Abc Official'' ''Zz'' 100 10 6 = (None, 9)"
    by code_simp
  have h: "\<not> high_confidence (Some (?lo ''x2''))" "\<not> high_confidence (Some (?lo ''x3''))"
    by (simp_all add: high_confidence_def HIGH_CONFIDENCE_def scored_def)
  have g: "search no_ratio ?S ''Abc Official'' ''Zz'' 100 10 0 = (Some (?lo ''x2''), 9)"
    by code_simp
  have ne: "?lo ''x3'' \<noteq> ?lo ''x2''" by (simp add: scored_def)
  from first_seen_wins[THEN conjunct2, THEN conjunct2,
         THEN mp, THEN mp, THEN mp, THEN mp, THEN mp, THEN mp, THEN mp, OF n p1 p2 p3 h g]
  have "Some (?lo ''x2'') = Some (?lo ''x2'')
          \<and> sv_score (?lo ''x3'') \<le> sv_score (?lo ''x2'')"
    using ne by (auto simp: scored_def)
  then show ?thesis using c s2 s5 s7 f g by simp
qed

end
